theory Spec2Isabelle
  imports Complex_Main
begin

section \<open>Conventions of the embedding\<close>

text \<open>
  The program is numerical Python (numpy arrays, numba kernels). Arrays are lists,
  array indices and counts are Python integers (\<open>int\<close>, or \<open>nat\<close> for positions that
  a loop produces), and double precision floats are modelled as exact reals: every
  statement below is about the arithmetic the code writes down, not about rounding.
  Where the code would raise, or where an array operation would produce a value that
  is not a real number (a division by zero giving \<open>inf\<close> or \<open>nan\<close>), the model returns
  an error instead of a result.
\<close>

datatype error = IndexError | ValueError | ZeroDivisionError | NotFinite

type_synonym 'a result = "error + 'a"

text \<open>Python's bounds of a slice \<open>xs[lo:hi]\<close> on a sequence of length \<open>n\<close>.\<close>

definition slice_bound :: "nat \<Rightarrow> int \<Rightarrow> nat" where
  "slice_bound n i = (if i < 0 then nat (max 0 (i + int n)) else min (nat i) n)"

text \<open>\<open>xs[lo:hi] = v\<close> for a scalar \<open>v\<close>.\<close>

definition set_slice_const :: "'a list \<Rightarrow> int \<Rightarrow> int \<Rightarrow> 'a \<Rightarrow> 'a list" where
  "set_slice_const xs lo hi v =
     (let a = slice_bound (length xs) lo; b = slice_bound (length xs) hi
      in map (\<lambda>k. if a \<le> k \<and> k < b then v else xs ! k) [0..<length xs])"

text \<open>Sequencing of computations that may fail.\<close>

definition bind_res :: "'a result \<Rightarrow> ('a \<Rightarrow> 'b result) \<Rightarrow> 'b result" where
  "bind_res m f = (case m of Inl e \<Rightarrow> Inl e | Inr x \<Rightarrow> f x)"

fun map_res :: "('a \<Rightarrow> 'b result) \<Rightarrow> 'a list \<Rightarrow> 'b list result" where
  "map_res f [] = Inr []"
| "map_res f (x # xs) = bind_res (f x) (\<lambda>y. bind_res (map_res f xs) (\<lambda>ys. Inr (y # ys)))"

text \<open>Python's \<open>xs[i]\<close>: a negative index counts from the end, an index out of range raises.\<close>

definition py_index :: "'a list \<Rightarrow> int \<Rightarrow> 'a result" where
  "py_index xs i =
     (let n = int (length xs); j = (if i < 0 then i + n else i)
      in if 0 \<le> j \<and> j < n then Inr (xs ! nat j) else Inl IndexError)"

text \<open>
  A float division of scalars (numba's Python error model raises on a zero divisor), and
  the division of array elements (a zero divisor gives \<open>inf\<close> or \<open>nan\<close>).
\<close>

definition scalar_div :: "real \<Rightarrow> real \<Rightarrow> real result" where
  "scalar_div x y = (if y = 0 then Inl ZeroDivisionError else Inr (x / y))"

definition array_div :: "real \<Rightarrow> real \<Rightarrow> real result" where
  "array_div x y = (if y = 0 then Inl NotFinite else Inr (x / y))"

text \<open>Boolean-mask indexing \<open>xs[mask]\<close>, and the sum and the mean of an array.\<close>

definition select :: "'a list \<Rightarrow> bool list \<Rightarrow> 'a list" where
  "select xs msk = map fst (filter snd (zip xs msk))"

definition mean :: "real list \<Rightarrow> real result" where
  "mean xs = (if xs = [] then Inl NotFinite else Inr (sum_list xs / real (length xs)))"

section \<open>utility.py\<close>

text \<open>Python's \<open>x % y\<close> on floats, in exact arithmetic (the result has the sign of \<open>y\<close>).\<close>

definition py_fmod :: "real \<Rightarrow> real \<Rightarrow> real" where
  "py_fmod x y = x - y * of_int \<lfloor>x / y\<rfloor>"

text \<open>
  \<open>fold_time_series\<close>: \<open>phases = ((times - zero) / period + 0.5) % 1 - 0.5\<close>.
  A zero period divides an array by zero.
\<close>

definition fold_time_series :: "real list \<Rightarrow> real \<Rightarrow> real \<Rightarrow> real list result" where
  "fold_time_series tms period zero =
     (if period = 0 then Inl NotFinite
      else Inr (map (\<lambda>t. py_fmod ((t - zero) / period + 0.5) 1 - 0.5) tms))"

section \<open>eclipse_finding.py: masks\<close>

text \<open>
  \<open>cut_eclipses\<close>: for each pair of times, \<open>mask = mask & ((times < ecl[0]) | (times > ecl[-1]))\<close>.
\<close>

definition cut_eclipses :: "real list \<Rightarrow> (real \<times> real) list \<Rightarrow> bool list" where
  "cut_eclipses tms eclipses =
     fold (\<lambda>ecl mask. map2 (\<lambda>m t. m \<and> (t < fst ecl \<or> t > snd ecl)) mask tms)
          eclipses (replicate (length tms) True)"

text \<open>
  \<open>mask_eclipses\<close>: for each pair of indices, \<open>mask[ecl[0]:ecl[-1] + 1] = False\<close>.
\<close>

definition mask_eclipses :: "'a list \<Rightarrow> (int \<times> int) list \<Rightarrow> bool list" where
  "mask_eclipses tms eclipses =
     fold (\<lambda>ecl mask. set_slice_const mask (fst ecl) (snd ecl + 1) False)
          eclipses (replicate (length tms) True)"

section \<open>eclipse_finding.py: smooth\<close>

text \<open>\<open>xs[lo:]\<close>, and the assignment \<open>xs[:hi] = src\<close> of an array to a slice: the shapes
  must agree, except that an array of one element is broadcast.\<close>

definition slice_from :: "'a list \<Rightarrow> int \<Rightarrow> 'a list" where
  "slice_from xs lo = drop (slice_bound (length xs) lo) xs"

definition set_slice_to :: "'a list \<Rightarrow> int \<Rightarrow> 'a list \<Rightarrow> 'a list result" where
  "set_slice_to xs hi src =
     (let k = slice_bound (length xs) hi
      in if length src = k then Inr (src @ drop k xs)
         else if length src = 1 then Inr (replicate k (hd src) @ drop k xs)
         else Inl ValueError)"

text \<open>Reading and writing at a possibly negative index that is known to be in range.\<close>

definition py_nth :: "'a list \<Rightarrow> int \<Rightarrow> 'a" where
  "py_nth xs j = xs ! nat (if j < 0 then j + int (length xs) else j)"

definition py_update :: "'a list \<Rightarrow> int \<Rightarrow> 'a \<Rightarrow> 'a list" where
  "py_update xs j v = xs[nat (if j < 0 then j + int (length xs) else j) := v]"

text \<open>
  \<open>smooth(a, n_kernel, mask)\<close>: the running average with a flat kernel. The three loops
  of the source carry the running \<open>sum\<close> and the output array \<open>a_smooth\<close>:
  \<^item> \<open>for i in range(0, n_kernel): sum = sum + a[i]; a_smooth[i] = sum / (i + 1)\<close>
  \<^item> \<open>for i in range(n_kernel, len(a)): sum = sum - a[i - n_kernel] + a[i]; a_smooth[i] = sum / n_kernel\<close>
  \<^item> \<open>if (n_2 > 1) | (n_3 > 0): a_smooth[:-n_2 - n_3 + 1] = a_smooth[n_2 + n_3 - 1:]\<close>
  \<^item> \<open>for i in range(-n_2 - n_3 + 1, 0): sum = sum - a[i - n_2 - 1]; a_smooth[i] = sum / (-i + n_2)\<close>

  The kernel width is a count (\<open>nat\<close>). The first loop reads \<open>a[i]\<close> for every
  \<open>i < n_kernel\<close>, which is out of range when the kernel is wider than the array; with
  \<open>n_kernel = 0\<close> the second loop divides by zero on its first pass. All other reads and
  writes are then in range.
\<close>

definition smooth_loop1 :: "real list \<Rightarrow> nat \<Rightarrow> real \<times> real list \<Rightarrow> real \<times> real list" where
  "smooth_loop1 a n_kernel =
     fold (\<lambda>i (s, out). let s' = s + a ! i in (s', out[i := s' / real (i + 1)])) [0..<n_kernel]"

definition smooth_loop2 :: "real list \<Rightarrow> nat \<Rightarrow> real \<times> real list \<Rightarrow> real \<times> real list" where
  "smooth_loop2 a n_kernel =
     fold (\<lambda>i (s, out). let s' = s - a ! (i - n_kernel) + a ! i in (s', out[i := s' / real n_kernel]))
       [n_kernel..<length a]"

definition smooth_loop3 :: "real list \<Rightarrow> nat \<Rightarrow> nat \<Rightarrow> real \<times> real list \<Rightarrow> real \<times> real list" where
  "smooth_loop3 a n_2 n_3 =
     fold (\<lambda>i (s, out). let s' = s - py_nth a (i - int n_2 - 1)
                         in (s', py_update out i (s' / real_of_int (- i + int n_2))))
       [- int n_2 - int n_3 + 1 .. -1]"

definition smooth :: "real list \<Rightarrow> nat \<Rightarrow> bool list option \<Rightarrow> real list result" where
  "smooth a n_kernel msk =
     (let n_2 = n_kernel div 2;
          n_3 = n_kernel mod 2
      in if length a < n_kernel then Inl IndexError
         else if n_kernel = 0 \<and> 0 < length a then Inl ZeroDivisionError
         else
           let st1 = smooth_loop1 a n_kernel (0, replicate (length a) 0);
               st2 = smooth_loop2 a n_kernel st1
           in bind_res (if n_2 > 1 \<or> n_3 > 0
                        then set_slice_to (snd st2) (- int n_2 - int n_3 + 1)
                               (slice_from (snd st2) (int n_2 + int n_3 - 1))
                        else Inr (snd st2)) (\<lambda>shifted.
              let st3 = smooth_loop3 a n_2 n_3 (fst st2, shifted)
              in (case msk of None \<Rightarrow> Inr (snd st3)
                  | Some m \<Rightarrow> if length m \<noteq> length (snd st3) then Inl IndexError
                              else Inr (select (snd st3) m))))"

section \<open>eclipse_finding.py: gaps and repeated points\<close>

text \<open>\<open>a[1:] - a[:-1]\<close> (\<open>np.diff\<close>), \<open>np.repeat\<close> with one count per element, \<open>np.cumsum\<close>,
  and the assignment \<open>xs[mask] = vals\<close>, which writes the values in order at the
  positions where the mask is True.\<close>

definition np_diff :: "real list \<Rightarrow> real list" where
  "np_diff a = map2 (\<lambda>x y. x - y) (tl a) (butlast a)"

definition np_repeat :: "'a list \<Rightarrow> nat list \<Rightarrow> 'a list" where
  "np_repeat xs reps = concat (map2 (\<lambda>x r. replicate r x) xs reps)"

fun cumsum_from :: "nat \<Rightarrow> nat list \<Rightarrow> nat list" where
  "cumsum_from acc [] = []"
| "cumsum_from acc (x # xs) = (acc + x) # cumsum_from (acc + x) xs"

definition cumsum :: "nat list \<Rightarrow> nat list" where
  "cumsum xs = cumsum_from 0 xs"

fun put_mask :: "'a list \<Rightarrow> bool list \<Rightarrow> 'a list \<Rightarrow> 'a list" where
  "put_mask (x # xs) (m # ms) vs =
     (if m then (case vs of v # vs' \<Rightarrow> v # put_mask xs ms vs' | [] \<Rightarrow> x # put_mask xs ms [])
      else x # put_mask xs ms vs)"
| "put_mask xs ms vs = xs"

text \<open>\<open>xs[idx] = True\<close> for an array \<open>idx\<close> of integer positions.\<close>

definition set_true_at :: "bool list \<Rightarrow> int list \<Rightarrow> bool list result" where
  "set_true_at xs idx =
     (if \<forall>j \<in> set idx. - int (length xs) \<le> j \<and> j < int (length xs)
      then Inr (fold (\<lambda>j ys. py_update ys j True) idx xs)
      else Inl IndexError)"

text \<open>
  \<open>mark_gaps(times)\<close>. \<open>np.min\<close> of the empty array of differences raises; a minimal
  difference of zero makes \<open>diff / min_d\<close> non-finite. The widths that are kept are 1
  or the floor of a ratio above 4, so they are counts.
\<close>

definition mark_gaps :: "real list \<Rightarrow> (bool list \<times> nat list) result" where
  "mark_gaps tms =
     (let diff = np_diff tms
      in if diff = [] then Inl ValueError
         else let min_d = Min (set diff)
         in if min_d = 0 then Inl NotFinite
         else
           let gap_width0 = map (\<lambda>d. d / min_d) diff;
               gaps0 = map (\<lambda>w. w > 4) gap_width0;
               gap_width1 = map2 (\<lambda>w g. if g then w else 1) gap_width0 gaps0;
               gaps1 = gaps0 @ [False];
               gaps = hd gaps1 # map2 (\<or>) (tl gaps1) (butlast gaps1);
               gap_width2 = map (\<lambda>w. nat \<lfloor>w\<rfloor>) (select gap_width1 (butlast gaps));
               gap_width = (if last gaps then gap_width2 @ [1] else gap_width2)
           in Inr (gaps, gap_width))"

text \<open>
  \<open>repeat_points_internals(times, n_kernel, no_gaps)\<close> returns \<open>(repetitions, repetition_mask)\<close>.
  The masks \<open>gap_p1\<close> and \<open>gap_p2\<close> mark the points after and before a gap,
  \<open>new_positions\<close> is the position of the last copy of every point in the repeated
  array. \<open>repetitions[0]\<close> and \<open>repetitions[-1]\<close> are then increased by \<open>n_kernel - 1\<close>.
\<close>

definition add_ends :: "nat list \<Rightarrow> nat \<Rightarrow> nat list result" where
  "add_ends reps k =
     (if reps = [] then Inl IndexError
      else let r1 = reps[0 := reps ! 0 + k]
           in Inr (r1[length r1 - 1 := r1 ! (length r1 - 1) + k]))"

definition repeat_points_internals :: "real list \<Rightarrow> nat \<Rightarrow> bool \<Rightarrow> (nat list \<times> bool list) result" where
  "repeat_points_internals tms n_kernel no_gaps =
     (if n_kernel < 2 then Inr (replicate (length tms) 1, replicate (length tms) True)
      else if no_gaps then
        bind_res (add_ends (replicate (length tms) 1) (n_kernel - 1)) (\<lambda>repetitions.
        let repeat_ends = replicate (n_kernel - 1) False
        in Inr (repetitions, repeat_ends @ replicate (length tms) True @ repeat_ends))
      else
        bind_res (mark_gaps tms) (\<lambda>(gaps, widths0).
        let gap_start = map (\<lambda>w. w \<noteq> 1) widths0;
            gap_p1 = put_mask gaps gaps (map Not gap_start);
            gap_p2 = put_mask gaps gaps gap_start;
            widths1 = map (\<lambda>w. if w = 1 then 0 else w) widths0;
            widths2 = map (\<lambda>w. (w + 1) div 2) widths1;
            max_repeats0 = (if widths2 = [] then []
                            else hd widths2 # map2 (+) (tl widths2) (butlast widths2));
            widths = map (\<lambda>w. if w < n_kernel then w else n_kernel) widths2;
            max_repeats = map (\<lambda>w. if w < n_kernel then w else n_kernel) max_repeats0;
            repetitions0 = put_mask (replicate (length tms) 1) gaps max_repeats;
            repetition_mask0 = np_repeat (map Not gaps) repetitions0;
            new_positions = map (\<lambda>c. int c - 1) (cumsum repetitions0);
            gap_edges0 = replicate (length repetition_mask0) False
        in bind_res (set_true_at gap_edges0 (select new_positions gap_p1)) (\<lambda>gap_edges1.
           bind_res (set_true_at gap_edges1
                       (map2 (\<lambda>p w. p - (int w - 1)) (select new_positions gap_p2)
                             (select widths gap_start))) (\<lambda>gap_edges.
           let repetition_mask1 = map2 (\<or>) repetition_mask0 gap_edges
           in bind_res (add_ends repetitions0 (n_kernel - 1)) (\<lambda>repetitions.
              let repeat_ends = replicate (n_kernel - 1) False
              in Inr (repetitions, repeat_ends @ repetition_mask1 @ repeat_ends))))))"

text \<open>For the statements about repeated arrays: the number of True entries of a mask, and
  the position in the repeated array where the copies of point \<open>i\<close> start.\<close>

definition count_true :: "bool list \<Rightarrow> nat" where
  "count_true m = length (filter id m)"

definition block_start :: "nat list \<Rightarrow> nat \<Rightarrow> nat" where
  "block_start rs i = sum_list (take i rs)"

section \<open>eclipse_finding.py: derivatives\<close>

text \<open>Elementwise division of two arrays of the same shape.\<close>

definition div_arrays :: "real list \<Rightarrow> real list \<Rightarrow> real list result" where
  "div_arrays xs ys =
     (if length xs \<noteq> length ys then Inl ValueError
      else map_res (\<lambda>(x, y). array_div x y) (zip xs ys))"

text \<open>\<open>smooth_diff\<close> and \<open>smooth_derivative\<close>: the differences of the smoothed array,
  the mask applied to both, and the division by the time differences.\<close>

definition smooth_diff :: "real list \<Rightarrow> nat \<Rightarrow> bool list option \<Rightarrow> (real list \<times> real list) result" where
  "smooth_diff a n_kernel msk =
     bind_res (smooth a n_kernel None) (\<lambda>a_smooth.
     let diff = np_diff a_smooth
     in (case msk of None \<Rightarrow> Inr (diff, a_smooth)
         | Some m \<Rightarrow>
             if length (butlast m) \<noteq> length diff \<or> length m \<noteq> length a_smooth then Inl IndexError
             else Inr (select diff (butlast m), select a_smooth m)))"

definition smooth_derivative :: "real list \<Rightarrow> real list \<Rightarrow> nat \<Rightarrow> bool list option
    \<Rightarrow> (real list \<times> real list) result" where
  "smooth_derivative a dt n_kernel msk =
     bind_res (smooth_diff a n_kernel msk) (\<lambda>(diff, a_smooth).
     bind_res (div_arrays diff dt) (\<lambda>d_dt. Inr (d_dt, a_smooth)))"

text \<open>
  \<open>np.append(a[1:] - a[:-1], [a[-1] - a[-2]])\<close>: the differences with the last one
  repeated; \<open>a[-2]\<close> needs two elements.
\<close>

definition diff_ext :: "real list \<Rightarrow> real list result" where
  "diff_ext a =
     (if length a < 2 then Inl IndexError
      else Inr (np_diff a @ [py_nth a (-1) - py_nth a (-2)]))"

text \<open>
  \<open>prepare_derivatives(times, signal, n_kernel, no_gaps)\<close> returns
  \<open>(signal_s, r_derivs, s_derivs)\<close>, the two stacks being the rows
  \<open>deriv_1, deriv_2, deriv_3, deriv_13\<close>.
\<close>

definition repeat_checked :: "real list \<Rightarrow> nat list \<Rightarrow> real list result" where
  "repeat_checked xs reps = (if length xs \<noteq> length reps then Inl ValueError else Inr (np_repeat xs reps))"

definition prepare_derivatives :: "real list \<Rightarrow> real list \<Rightarrow> nat \<Rightarrow> bool
    \<Rightarrow> (real list \<times> real list list \<times> real list list) result" where
  "prepare_derivatives tms signal n_kernel no_gaps =
     (if length tms < 2 then Inl IndexError
      else
        let diff_t = np_diff (tms @ [2 * py_nth tms (-1) - py_nth tms (-2)])
        in if n_kernel = 1 then
             bind_res (diff_ext signal) (\<lambda>d1. bind_res (div_arrays d1 diff_t) (\<lambda>deriv_1.
             bind_res (diff_ext deriv_1) (\<lambda>d2. bind_res (div_arrays d2 diff_t) (\<lambda>deriv_2.
             bind_res (diff_ext deriv_2) (\<lambda>d3. bind_res (div_arrays d3 diff_t) (\<lambda>deriv_3.
             let deriv_13 = map2 (\<lambda>x y. - x * y) deriv_1 deriv_3
             in Inr (signal, [deriv_1, deriv_2, deriv_3, deriv_13],
                     [deriv_1, deriv_2, deriv_3, deriv_13])))))))
           else
             bind_res (repeat_points_internals tms n_kernel no_gaps) (\<lambda>(n_repeats, rep_mask).
             bind_res (repeat_checked signal n_repeats) (\<lambda>signal_e.
             bind_res (smooth_derivative signal_e diff_t n_kernel (Some rep_mask)) (\<lambda>(deriv_1, signal_s).
             bind_res (repeat_checked deriv_1 n_repeats) (\<lambda>deriv_1e.
             bind_res (smooth_derivative deriv_1e diff_t n_kernel (Some rep_mask)) (\<lambda>(deriv_2, deriv_1s).
             bind_res (repeat_checked deriv_2 n_repeats) (\<lambda>deriv_2e.
             bind_res (smooth_derivative deriv_2e diff_t n_kernel (Some rep_mask)) (\<lambda>(deriv_3, deriv_2s).
             bind_res (repeat_checked deriv_3 n_repeats) (\<lambda>deriv_3e.
             bind_res (smooth deriv_3e n_kernel (Some rep_mask)) (\<lambda>deriv_3s.
             if length deriv_1s \<noteq> length deriv_3s then Inl ValueError
             else
               let deriv_13 = map2 (\<lambda>x y. - x * y) deriv_1s deriv_3s
               in bind_res (repeat_checked deriv_13 n_repeats) (\<lambda>deriv_13e.
                  bind_res (smooth deriv_13e n_kernel (Some rep_mask)) (\<lambda>deriv_13s.
                  Inr (signal_s, [deriv_1, deriv_2, deriv_3, deriv_13],
                       [deriv_1s, deriv_2s, deriv_3s, deriv_13s])))))))))))))"

text \<open>
  The specification's words for the derivative pipeline without smoothing, as definitions
  of their own to compare the code with: the plain forward differences of a curve, the last
  difference repeated as a synthetic trailing element; and the time deltas, the trailing
  one taken to the time \<open>2 * times[-1] - times[-2]\<close> extrapolated from the last two samples.
\<close>

definition spec_forward_diff :: "real list \<Rightarrow> real list" where
  "spec_forward_diff a =
     map (\<lambda>i. if i + 1 < length a then a ! (i + 1) - a ! i
               else a ! (length a - 1) - a ! (length a - 2)) [0..<length a]"

definition spec_time_deltas :: "real list \<Rightarrow> real list" where
  "spec_time_deltas tms =
     map (\<lambda>i. if i + 1 < length tms then tms ! (i + 1) - tms ! i
               else (2 * tms ! (length tms - 1) - tms ! (length tms - 2)) - tms ! (length tms - 1))
         [0..<length tms]"

definition spec_derivative :: "real list \<Rightarrow> real list \<Rightarrow> real list" where
  "spec_derivative a tms = map2 (\<lambda>d dt. d / dt) (spec_forward_diff a) (spec_time_deltas tms)"

section \<open>eclipse_finding.py: measure_eclipses\<close>

text \<open>
  A row of \<open>ecl_indices\<close>: the indices of the left outside, left inside, right inside
  and right outside points (columns 0, 1, -2 and -1).
\<close>

record ecl_index =
  l_o :: int
  l_i :: int
  r_i :: int
  r_o :: int

text \<open>
  The measurements of one eclipse, as the array statements of \<open>measure_eclipses\<close>
  compute them for a row with flag \<open>flag\<close> (0 full, 1 left half, 2 right half):
  the masked assignments to \<open>widths\<close>, \<open>ratios\<close> and \<open>ecl_mid\<close> leave the initial zero
  in every other row, \<open>depths\<close> is computed for all rows with
  \<open>denom = 2 * m_full + 1 * m_left + 1 * m_right\<close>.
  The result is \<open>(ecl_mid, width, depth, ratio)\<close>.
\<close>

definition measure_one :: "real list \<Rightarrow> real list \<Rightarrow> ecl_index \<Rightarrow> int
    \<Rightarrow> (real \<times> real \<times> real \<times> real) result" where
  "measure_one tms signal e flag =
     bind_res (if flag = 0 then
                 bind_res (py_index tms (r_o e)) (\<lambda>a. bind_res (py_index tms (l_o e)) (\<lambda>b. Inr (a - b)))
               else if flag = 1 then
                 bind_res (py_index tms (l_i e)) (\<lambda>a. bind_res (py_index tms (l_o e)) (\<lambda>b. Inr (a - b)))
               else if flag = 2 then
                 bind_res (py_index tms (r_o e)) (\<lambda>a. bind_res (py_index tms (r_i e)) (\<lambda>b. Inr (a - b)))
               else Inr 0) (\<lambda>width.
     bind_res (if flag = 0 then
                 bind_res (py_index tms (r_i e)) (\<lambda>a. bind_res (py_index tms (l_i e)) (\<lambda>b.
                   array_div (a - b) width))
               else Inr 0) (\<lambda>ratio.
     bind_res (py_index signal (l_o e)) (\<lambda>s_lo. bind_res (py_index signal (l_i e)) (\<lambda>s_li.
     bind_res (py_index signal (r_o e)) (\<lambda>s_ro. bind_res (py_index signal (r_i e)) (\<lambda>s_ri.
     let depths_l = s_lo - s_li;
         depths_r = s_ro - s_ri;
         denom = 2 * (if flag = 0 then 1 else 0) + 1 * (if flag = 1 then 1 else 0)
                   + 1 * (if flag = 2 then 1 else 0)
     in bind_res (array_div (depths_l + depths_r) denom) (\<lambda>depth.
     bind_res (if flag = 0 then
                 bind_res (py_index tms (l_o e)) (\<lambda>a. bind_res (py_index tms (r_o e)) (\<lambda>b.
                 bind_res (py_index tms (l_i e)) (\<lambda>c. bind_res (py_index tms (r_i e)) (\<lambda>d.
                   Inr ((a + b + c + d) / 4)))))
               else if flag = 1 then py_index tms (l_i e)
               else if flag = 2 then py_index tms (r_i e)
               else Inr 0) (\<lambda>ecl_mid.
     Inr (ecl_mid, width, depth, ratio)))))))))"

text \<open>
  \<open>measure_eclipses\<close> returns the four arrays \<open>(ecl_mid, widths, depths, ratios)\<close>; with no
  flags they are empty. The boolean masks made from \<open>flags_lrf\<close> index the rows of
  \<open>ecl_indices\<close>, so the two must have the same length. When several rows fail, the
  model reports the failure of the first one.
\<close>

definition measure_eclipses :: "real list \<Rightarrow> real list \<Rightarrow> ecl_index list \<Rightarrow> int list
    \<Rightarrow> (real list \<times> real list \<times> real list \<times> real list) result" where
  "measure_eclipses tms signal ecl_indices flags_lrf =
     (if length flags_lrf > 0 then
        if length ecl_indices \<noteq> length flags_lrf then Inl IndexError
        else bind_res (map_res (\<lambda>(e, flag). measure_one tms signal e flag) (zip ecl_indices flags_lrf))
               (\<lambda>rows. Inr (map fst rows, map (\<lambda>r. fst (snd r)) rows,
                             map (\<lambda>r. fst (snd (snd r))) rows, map (\<lambda>r. snd (snd (snd r))) rows))
      else Inr ([], [], [], []))"

text \<open>A row whose four indices are positions of an array of length \<open>n\<close>.\<close>

definition row_in_range :: "nat \<Rightarrow> ecl_index \<Rightarrow> bool" where
  "row_in_range n e \<longleftrightarrow> 0 \<le> l_o e \<and> l_o e < int n \<and> 0 \<le> l_i e \<and> l_i e < int n
     \<and> 0 \<le> r_i e \<and> r_i e < int n \<and> 0 \<le> r_o e \<and> r_o e < int n"

section \<open>eclipse_finding.py: the period search\<close>

text \<open>\<open>np.median\<close>, \<open>np.max\<close>, \<open>np.min\<close>, \<open>np.arange\<close> on floats and \<open>np.searchsorted\<close> (left side,
  on an ascending array: the number of elements below the value).\<close>

definition median :: "real list \<Rightarrow> real result" where
  "median xs =
     (if xs = [] then Inl NotFinite
      else let s = sort xs; n = length xs
           in Inr (if even n then (s ! (n div 2 - 1) + s ! (n div 2)) / 2 else s ! (n div 2)))"

definition np_max :: "real list \<Rightarrow> real result" where
  "np_max xs = (if xs = [] then Inl ValueError else Inr (Max (set xs)))"

definition np_min :: "real list \<Rightarrow> real result" where
  "np_min xs = (if xs = [] then Inl ValueError else Inr (Min (set xs)))"

definition arange :: "real \<Rightarrow> real \<Rightarrow> real \<Rightarrow> real list result" where
  "arange start stop step =
     (if step = 0 then Inl ValueError
      else Inr (map (\<lambda>k. start + real k * step) [0..<nat \<lceil>(stop - start) / step\<rceil>]))"

definition searchsorted :: "real list \<Rightarrow> real \<Rightarrow> nat" where
  "searchsorted a v = length (takeWhile (\<lambda>q. q < v) a)"

text \<open>
  \<open>construct_range(t_0, period, domain, p_min)\<close> returns \<open>(points, n_range)\<close>.
\<close>

definition construct_range :: "real \<Rightarrow> real \<Rightarrow> real \<times> real \<Rightarrow> real \<Rightarrow> (real list \<times> int list) result" where
  "construct_range t_0 period domain p_min =
     (let step = (if period < p_min then p_min else period)
      in bind_res (scalar_div (fst domain - t_0) step) (\<lambda>q_before.
         bind_res (scalar_div (snd domain - t_0) step) (\<lambda>q_after.
         let n_before = \<lceil>q_before\<rceil>;
             n_after = \<lfloor>q_after\<rfloor>;
             n_range = [n_before .. n_after]
         in Inr (map (\<lambda>n. t_0 + period * of_int n) n_range, n_range))))"

text \<open>
  The body of the loop of \<open>pattern_test\<close> for one eclipse midpoint: the index of the
  nearest neighbour in the pattern (which may be -1, the last element) and the distance
  to it.
\<close>

definition nearest_index :: "real list \<Rightarrow> real \<Rightarrow> int" where
  "nearest_index pattern x =
     (let i0 = int (searchsorted pattern x);
          i_nn = (if i0 = int (length pattern) then int (length pattern) - 1 else i0);
          closest = (\<bar>py_nth pattern i_nn - x\<bar> < \<bar>x - py_nth pattern (i_nn - 1)\<bar>)
      in if closest then i_nn else i_nn - 1)"

definition nearest_dist :: "real list \<Rightarrow> real \<Rightarrow> real" where
  "nearest_dist pattern x = \<bar>py_nth pattern (nearest_index pattern x) - x\<bar>"

text \<open>The comparison \<open>d / w < c\<close> on array elements with \<open>d \<ge> 0\<close>: for \<open>w = 0\<close> the quotient is
  \<open>inf\<close> or \<open>nan\<close> and the comparison is False.\<close>

definition div_less :: "real \<Rightarrow> real \<Rightarrow> real \<Rightarrow> bool" where
  "div_less d w c = (if w = 0 then False else d / w < c)"

text \<open>
  The goodness of fit of one trial period \<open>p\<close>: the body of the loop over the periods.
\<close>

definition pattern_gof :: "real list \<Rightarrow> real list \<Rightarrow> real list \<Rightarrow> real \<times> real \<Rightarrow> real \<Rightarrow> real
    \<Rightarrow> real \<Rightarrow> real result" where
  "pattern_gof ecl_mid added_snr widths time_frame t_0 timestep p =
     bind_res (construct_range t_0 p time_frame 0.1) (\<lambda>(pattern, n_range).
     if length pattern \<noteq> 0 then
       let d_nn = map (nearest_dist pattern) ecl_mid
       in if length widths \<noteq> length ecl_mid then Inl ValueError
          else
            let cn_w = map2 (\<lambda>d w. div_less d w 0.5 \<and> div_less d p (max 0.06 timestep)) d_nn widths
            in if length added_snr \<noteq> length cn_w then Inl IndexError
               else Inr (real (length (select added_snr cn_w)) / real (length pattern)
                           * sum_list (select added_snr cn_w) - sum_list (select d_nn cn_w))
     else Inr 0)"

text \<open>
  \<open>pattern_test(ecl_mid, added_snr, widths, time_frame, ecl_0, p_max, p_step, timestep)\<close>
  returns \<open>(periods, gof)\<close>. The optional arguments are \<open>None\<close> or a value. The first
  part of the function, up to \<open>periods = np.arange(p_min, p_max, p_step)\<close>, determines the
  reference time \<open>t_0\<close> and the period grid; the loop then fills \<open>gof\<close>.
\<close>

definition pattern_test_grid :: "real list \<Rightarrow> real list \<Rightarrow> real list \<Rightarrow> int option
    \<Rightarrow> real option \<Rightarrow> real option \<Rightarrow> real \<Rightarrow> (real \<times> real list) result" where
  "pattern_test_grid ecl_mid added_snr widths ecl_0_arg p_max_arg p_step_arg timestep =
     (let n_ecl = length ecl_mid;
          ecl_i = map int [0..<n_ecl]
      in bind_res
           (if p_max_arg = None \<or> ecl_0_arg = None then
              bind_res (np_max added_snr) (\<lambda>mx. bind_res (mean added_snr) (\<lambda>mn.
              let snr_ref = max mn (0.5 * mx);
                  high_snr = map (\<lambda>s. s > snr_ref) added_snr
              in if length high_snr \<noteq> n_ecl then Inl IndexError
                 else
                   bind_res (case ecl_0_arg of None \<Rightarrow> py_index (select ecl_i high_snr) 0
                             | Some e \<Rightarrow> Inr e) (\<lambda>ecl_0.
                   bind_res (case p_max_arg of
                               None \<Rightarrow> if length (select ecl_mid high_snr) > 1
                                       then bind_res (median (np_diff (select ecl_mid high_snr)))
                                              (\<lambda>m. Inr (3 * m))
                                       else bind_res (median (np_diff ecl_mid)) (\<lambda>m. Inr (3 * m))
                             | Some pm \<Rightarrow> Inr pm) (\<lambda>p_max. Inr (ecl_0, p_max)))))
            else Inr (the ecl_0_arg, the p_max_arg)) (\<lambda>(ecl_0, p_max0).
         bind_res (if p_max0 = 0 then bind_res (median (np_diff ecl_mid)) (\<lambda>m. Inr (3 * m))
                   else Inr p_max0) (\<lambda>p_max1.
         let p_max = max 0.002 p_max1
         in bind_res (py_index ecl_mid ecl_0) (\<lambda>t_0.
            bind_res (np_min (map (\<lambda>m. \<bar>t_0 - m\<bar>) (select ecl_mid (map (\<lambda>i. i \<noteq> ecl_0) ecl_i))))
              (\<lambda>mn.
            let p_min0 = 0.95 * mn;
                p_min1 = (if p_max < p_min0 then 0.01 * p_max else p_min0);
                p_min = max 0.001 p_min1
            in bind_res (case p_step_arg of
                           None \<Rightarrow> bind_res (mean widths) (\<lambda>mw. bind_res (np_max ecl_mid) (\<lambda>hi.
                                   bind_res (np_min ecl_mid) (\<lambda>lo. scalar_div mw (10 * (hi - lo)))))
                         | Some ps \<Rightarrow> Inr ps) (\<lambda>p_step0.
               let p_step = max (min p_step0 (0.01 * p_max)) (timestep / 1000)
               in bind_res (arange p_min p_max p_step) (\<lambda>periods. Inr (t_0, periods))))))))"

definition pattern_test :: "real list \<Rightarrow> real list \<Rightarrow> real list \<Rightarrow> real \<times> real \<Rightarrow> int option
    \<Rightarrow> real option \<Rightarrow> real option \<Rightarrow> real \<Rightarrow> (real list \<times> real list) result" where
  "pattern_test ecl_mid added_snr widths time_frame ecl_0_arg p_max_arg p_step_arg timestep =
     bind_res (pattern_test_grid ecl_mid added_snr widths ecl_0_arg p_max_arg p_step_arg timestep)
       (\<lambda>(t_0, periods).
     bind_res (map_res (pattern_gof ecl_mid added_snr widths time_frame t_0 timestep) periods)
       (\<lambda>gof. Inr (periods, gof)))"

text \<open>
  The specification's words for the match of one trial period, to compare the code with:
  the predicted times, the distance of a midpoint to the nearest predicted time, the
  matched midpoints, and the goodness of fit.
\<close>

definition spec_distance :: "real list \<Rightarrow> real \<Rightarrow> real" where
  "spec_distance predicted x = Min ((\<lambda>q. \<bar>q - x\<bar>) ` set predicted)"

definition spec_matched :: "real list \<Rightarrow> real list \<Rightarrow> real list \<Rightarrow> real \<Rightarrow> real \<Rightarrow> nat list" where
  "spec_matched predicted ecl_mid widths timestep p =
     filter (\<lambda>j. spec_distance predicted (ecl_mid ! j) < 0.5 * widths ! j
                \<and> spec_distance predicted (ecl_mid ! j) < max 0.06 timestep * p)
       [0..<length ecl_mid]"

definition spec_gof :: "real list \<Rightarrow> real list \<Rightarrow> real list \<Rightarrow> real list \<Rightarrow> real \<Rightarrow> real \<Rightarrow> real" where
  "spec_gof predicted ecl_mid added_snr widths timestep p =
     (let matched = spec_matched predicted ecl_mid widths timestep p
      in real (length matched) / real (length predicted) * (\<Sum>j \<leftarrow> matched. added_snr ! j)
           - (\<Sum>j \<leftarrow> matched. spec_distance predicted (ecl_mid ! j)))"

section \<open>eclipse_finding.py: the eclipse score\<close>

text \<open>Integer-array indexing \<open>xs[idx]\<close>, boolean-mask indexing with the check of the shape,
  and the mean of a masked selection.\<close>

definition take_at :: "'a list \<Rightarrow> int list \<Rightarrow> 'a list result" where
  "take_at xs idx = map_res (py_index xs) idx"

definition select_checked :: "'a list \<Rightarrow> bool list \<Rightarrow> 'a list result" where
  "select_checked xs msk = (if length xs \<noteq> length msk then Inl IndexError else Inr (select xs msk))"

definition np_any :: "bool list \<Rightarrow> bool" where
  "np_any bs = (True \<in> set bs)"

text \<open>
  \<open>found_ratio\<close>. The possible eclipses of one kind start from the first eclipse \<open>t_0\<close> of
  that kind: \<open>np.arange(t_0, times[0], -period)[::-1]\<close> followed by
  \<open>np.arange(t_0, times[-1], period)\<close> (for the primaries without its first element), then
  masked for every pair \<open>i, j\<close> of consecutive marked points with \<open>j - i == 1\<close>.
\<close>

definition possible_eclipses :: "real list \<Rightarrow> nat list \<Rightarrow> real \<Rightarrow> real \<Rightarrow> bool \<Rightarrow> real list result" where
  "possible_eclipses tms gaps_i t_0 period skip_first =
     bind_res (py_index tms 0) (\<lambda>t_first. bind_res (py_index tms (-1)) (\<lambda>t_last.
     bind_res (arange t_0 t_first (- period)) (\<lambda>before.
     bind_res (arange t_0 t_last period) (\<lambda>after.
     let possible = rev before @ (if skip_first then tl after else after);
         msk = fold (\<lambda>(i, j) m. if int j - int i = 1
                                  then map2 (\<lambda>b q. b \<and> (q < tms ! i \<or> q > tms ! j)) m possible
                                  else m)
                 (zip (butlast gaps_i) (tl gaps_i)) (replicate (length possible) True)
     in Inr (select possible msk)))))"

definition found_ratio :: "real list \<Rightarrow> real list \<Rightarrow> int list \<Rightarrow> real \<Rightarrow> nat \<Rightarrow> real result" where
  "found_ratio tms ecl_mid flags_pst period n_found =
     (let prim = map (\<lambda>f. f = 1) flags_pst;
          sec = map (\<lambda>f. f = 2) flags_pst
      in bind_res
           (if period = -1 then Inr 1
            else if period > 0 then
              bind_res (mark_gaps tms) (\<lambda>(gaps0, gap_widths).
              let gaps1 = gaps0[0 := True];
                  gaps = gaps1[length gaps1 - 1 := True];
                  gaps_i = filter (\<lambda>i. gaps ! i) [0..<length tms]
              in bind_res (if np_any prim then
                             bind_res (select_checked ecl_mid prim) (\<lambda>mids.
                             possible_eclipses tms gaps_i (hd mids) period True)
                           else Inr []) (\<lambda>possible_prim.
                 bind_res (if np_any sec then
                             bind_res (select_checked ecl_mid sec) (\<lambda>mids.
                             possible_eclipses tms gaps_i (hd mids) period False)
                           else Inr []) (\<lambda>possible_sec.
                 Inr (length possible_prim + length possible_sec))))
            else Inr 1) (\<lambda>n_possible.
         let r0 = (if n_possible \<noteq> 0 then real n_found / real n_possible else 1);
             r1 = (if r0 > 1 then 1 / r0 else r0)
         in Inr (0.5 * r1 + 0.5)))"

text \<open>
  The heights and widths of the two sides of the selected eclipses, as \<open>normalised_slope\<close>
  and \<open>normalised_symmetry\<close> compute them (the source calls the side of the columns 0 and
  1 "right" and the side of the columns -1 and -2 "left").
\<close>

definition side_measures :: "real list \<Rightarrow> real list \<Rightarrow> ecl_index list
    \<Rightarrow> (real list \<times> real list \<times> real list \<times> real list) result" where
  "side_measures tms signal rows =
     bind_res (take_at signal (map l_o rows)) (\<lambda>s0. bind_res (take_at signal (map l_i rows)) (\<lambda>s1.
     bind_res (take_at signal (map r_o rows)) (\<lambda>s3. bind_res (take_at signal (map r_i rows)) (\<lambda>s2.
     bind_res (take_at tms (map l_i rows)) (\<lambda>t1. bind_res (take_at tms (map l_o rows)) (\<lambda>t0.
     bind_res (take_at tms (map r_o rows)) (\<lambda>t3. bind_res (take_at tms (map r_i rows)) (\<lambda>t2.
     Inr (map2 (\<lambda>a b. a - b) s0 s1, map2 (\<lambda>a b. a - b) s3 s2,
          map2 (\<lambda>a b. a - b) t1 t0, map2 (\<lambda>a b. a - b) t3 t2)))))))))"

definition normalised_slope :: "real list \<Rightarrow> real list \<Rightarrow> real list \<Rightarrow> ecl_index list \<Rightarrow> bool list
    \<Rightarrow> bool list \<Rightarrow> bool list \<Rightarrow> real result" where
  "normalised_slope tms signal_s deriv_1r ecl_indices ecl_mask prim_sec m_full =
     (if length prim_sec \<noteq> length m_full then Inl ValueError
      else
        let msk = map2 (\<and>) prim_sec m_full
        in bind_res (select_checked ecl_indices prim_sec) (\<lambda>rows_ps.
           bind_res (select_checked ecl_indices msk) (\<lambda>rows_full.
           bind_res
             (if length rows_ps = 0 then Inr [0]
              else if length rows_full = 0 then
                bind_res (side_measures tms signal_s rows_ps)
                  (\<lambda>(height_right, height_left, width_right, width_left).
                div_arrays (map2 (+) height_right height_left) (map2 (+) width_right width_left))
              else
                bind_res (side_measures tms signal_s rows_full)
                  (\<lambda>(height_right, height_left, width_right, width_left).
                bind_res (div_arrays height_right width_right) (\<lambda>slope_right.
                bind_res (div_arrays height_left width_left) (\<lambda>slope_left.
                Inr (map2 (\<lambda>r l. if r < l then r else l) slope_right slope_left)))))
             (\<lambda>slope.
           bind_res (select_checked deriv_1r ecl_mask) (\<lambda>outside.
           bind_res (median (map abs outside)) (\<lambda>norm_factor.
           bind_res (mean slope) (\<lambda>m. scalar_div m norm_factor)))))))"

definition normalised_symmetry :: "real list \<Rightarrow> real list \<Rightarrow> ecl_index list \<Rightarrow> real result" where
  "normalised_symmetry tms signal ecl_indices =
     bind_res
       (if length ecl_indices = 0 then Inr 1
        else
          bind_res (side_measures tms signal ecl_indices)
            (\<lambda>(height_right, height_left, width_right, width_left).
          bind_res (div_arrays (map2 (\<lambda>r l. \<bar>r - l\<bar>) height_right height_left)
                      (map2 (\<lambda>r l. (r + l) / 2) height_right height_left)) (\<lambda>height.
          bind_res (div_arrays height_right width_right) (\<lambda>slope_right.
          bind_res (div_arrays height_left width_left) (\<lambda>slope_left.
          bind_res (div_arrays (map2 (\<lambda>r l. \<bar>r - l\<bar>) slope_right slope_left)
                      (map2 (\<lambda>r l. (r + l) / 2) slope_right slope_left)) (\<lambda>slope.
          bind_res (mean slope) (\<lambda>ms. bind_res (mean height) (\<lambda>mh.
          let symmetry = ms * mh / 0.7
          in Inr (if symmetry < 0.5 then symmetry * (2 * (1 - symmetry)) else symmetry)))))))))
       (\<lambda>symmetry. scalar_div 0.5 (0.5 + symmetry))"

text \<open>The sum of the squared relative deviations from the mean, \<open>np.sum((np.abs(x - avg) / avg)**2)\<close>.\<close>

definition rel_deviation :: "real list \<Rightarrow> real result" where
  "rel_deviation xs =
     bind_res (mean xs) (\<lambda>avg.
     bind_res (map_res (\<lambda>x. array_div \<bar>x - avg\<bar> avg) xs) (\<lambda>ds.
     Inr (sum_list (map (\<lambda>d. d\<^sup>2) ds))))"

definition normalised_equality :: "real list \<Rightarrow> real list \<Rightarrow> real list \<Rightarrow> int list \<Rightarrow> real result" where
  "normalised_equality added_snr depths widths flags_pst =
     (let prim = map (\<lambda>f. f = 1) flags_pst;
          sec = map (\<lambda>f. f = 2) flags_pst
      in bind_res (select_checked added_snr prim) (\<lambda>a_p.
         bind_res (select_checked added_snr sec) (\<lambda>a_s.
         let n_prim = length a_p;
             n_sec = length a_s
         in bind_res
              (if n_prim > 1 then
                 bind_res (rel_deviation a_p) (\<lambda>dev_a_p.
                 bind_res (select_checked depths prim) (\<lambda>d_p. bind_res (rel_deviation d_p) (\<lambda>dev_d_p.
                 bind_res (select_checked widths prim) (\<lambda>w_p. bind_res (rel_deviation w_p) (\<lambda>dev_w_p.
                 bind_res
                   (if n_sec > 1 then
                      bind_res (rel_deviation a_s) (\<lambda>dev_a_s.
                      bind_res (select_checked depths sec) (\<lambda>d_s. bind_res (rel_deviation d_s) (\<lambda>dev_d_s.
                      bind_res (select_checked widths sec) (\<lambda>w_s. bind_res (rel_deviation w_s) (\<lambda>dev_w_s.
                      Inr (dev_a_s, dev_d_s, dev_w_s, n_sec))))))
                    else Inr (0, 0, 0, 0)) (\<lambda>(dev_a_s, dev_d_s, dev_w_s, n_sec').
                 let dev_a = (dev_a_p + dev_a_s) / real (n_prim + n_sec' - 1);
                     dev_d = (dev_d_p + dev_d_s) / real (n_prim + n_sec' - 1);
                     dev_w = (dev_w_p + dev_w_s) / real (n_prim + n_sec' - 1);
                     equality = dev_a * dev_d * dev_w / 0.1
                 in Inr (if equality < 0.5 then equality * (2 * (1 - equality)) else equality)))))))
               else Inr 1) (\<lambda>equality. scalar_div 0.5 (0.5 + equality)))))"

text \<open>
  \<open>eclipse_score_attr\<close> returns \<open>(score, attr_0, attr_1, attr_2, attr_3, attr_4, penalty)\<close>;
  \<open>eclipse_score\<close> runs the same statements and returns the score alone.
\<close>

definition eclipse_score_attr :: "real list \<Rightarrow> real list \<Rightarrow> real list \<Rightarrow> real \<Rightarrow> ecl_index list
    \<Rightarrow> real list \<Rightarrow> real list \<Rightarrow> real list \<Rightarrow> real list \<Rightarrow> int list \<Rightarrow> int list
    \<Rightarrow> (real \<times> real \<times> real \<times> real \<times> real \<times> real \<times> real) result" where
  "eclipse_score_attr tms signal_s deriv_1r period ecl_indices ecl_mid added_snr widths depths
       flags_lrf flags_pst =
     (if length ecl_mid \<noteq> 0 then
        let primaries = map (\<lambda>f. f = 1) flags_pst;
            secondaries = map (\<lambda>f. f = 2) flags_pst;
            prim_sec = map2 (\<or>) primaries secondaries;
            m_full = map (\<lambda>f. f = 0) flags_lrf
        in bind_res (select_checked ecl_indices prim_sec) (\<lambda>rows_ps.
           let ecl_mask = mask_eclipses tms (map (\<lambda>e. (l_o e, r_o e)) rows_ps)
           in bind_res (select_checked ecl_mid prim_sec) (\<lambda>found.
              let n_found = length found
              in if n_found \<noteq> 0 then
                   bind_res (if np_any primaries
                             then bind_res (select_checked added_snr primaries) mean
                             else Inr 0) (\<lambda>avg_p.
                   bind_res (if np_any secondaries
                             then bind_res (select_checked added_snr secondaries) mean
                             else Inr 0) (\<lambda>avg_s.
                   let attr_0 = arctan ((avg_p + avg_s) / 40) * 2 / pi
                   in bind_res (found_ratio tms ecl_mid flags_pst period n_found) (\<lambda>attr_1.
                      bind_res (normalised_slope tms signal_s deriv_1r ecl_indices ecl_mask
                                  primaries m_full) (\<lambda>slope.
                      let attr_2 = arctan (slope / 2.5) * 2 / pi
                      in if length m_full \<noteq> length prim_sec then Inl ValueError
                         else
                           bind_res (select_checked ecl_indices (map2 (\<and>) m_full prim_sec)) (\<lambda>rows_f.
                           bind_res (normalised_symmetry tms signal_s rows_f) (\<lambda>attr_3.
                           bind_res (normalised_equality added_snr depths widths flags_pst) (\<lambda>attr_4.
                           bind_res
                             (if np_any primaries then
                                bind_res (bind_res (select_checked widths primaries) mean) (\<lambda>w_p.
                                bind_res (if np_any secondaries
                                          then bind_res (bind_res (select_checked widths secondaries) mean)
                                                 (\<lambda>w_s. Inr (max w_p w_s))
                                          else Inr w_p) (\<lambda>max_avg_w.
                                Inr (max_avg_w > 0.8 * period)))
                              else Inr False) (\<lambda>wide.
                           let penalty = 1 - 0.5 * (if \<not> np_any (map2 (\<and>) m_full prim_sec) \<or> wide
                                                    then 1 else 0);
                               score = attr_0 * attr_2
                                         * sqrt (attr_1\<^sup>2 + attr_2\<^sup>2 + attr_3\<^sup>2 + attr_4\<^sup>2) / 2
                           in Inr (score * penalty, attr_0, attr_1, attr_2, attr_3, attr_4, penalty)))))))))
                 else
                   bind_res (np_max added_snr) (\<lambda>mx.
                   let attr_0 = arctan (mx / 600) * 2 / pi
                   in bind_res (normalised_slope tms signal_s deriv_1r ecl_indices ecl_mask
                                  (map Not prim_sec) m_full) (\<lambda>slope.
                      let attr_2 = arctan (slope / 2.5) * 2 / pi;
                          penalty = 1 - 0.5 * (if \<not> np_any m_full then 1 else 0)
                      in Inr (attr_0 * attr_2 * penalty, attr_0, -0.1, attr_2, -0.1, -0.1, penalty)))))
      else Inr (-1, -0.1, -0.1, -0.1, -0.1, -0.1, 0))"

definition eclipse_score :: "real list \<Rightarrow> real list \<Rightarrow> real list \<Rightarrow> real \<Rightarrow> ecl_index list
    \<Rightarrow> real list \<Rightarrow> real list \<Rightarrow> real list \<Rightarrow> real list \<Rightarrow> int list \<Rightarrow> int list \<Rightarrow> real result" where
  "eclipse_score tms signal_s deriv_1r period ecl_indices ecl_mid added_snr widths depths
       flags_lrf flags_pst =
     bind_res (eclipse_score_attr tms signal_s deriv_1r period ecl_indices ecl_mid added_snr widths
                 depths flags_lrf flags_pst) (\<lambda>(score, rest). Inr score)"

text \<open>
  The specification's words for the penalty: no full eclipse among the primaries and
  secondaries, or a mean primary or secondary width above 0.8 times the period; and what
  the code tests for the width, which looks at the widths only when there is a primary.
\<close>

definition spec_mean_width :: "real list \<Rightarrow> int list \<Rightarrow> int \<Rightarrow> real" where
  "spec_mean_width widths flags_pst kind =
     sum_list (select widths (map (\<lambda>f. f = kind) flags_pst))
       / real (length (select widths (map (\<lambda>f. f = kind) flags_pst)))"

definition spec_no_full :: "int list \<Rightarrow> int list \<Rightarrow> bool" where
  "spec_no_full flags_lrf flags_pst =
     (\<not> (\<exists>i < length flags_pst. flags_lrf ! i = 0 \<and> (flags_pst ! i = 1 \<or> flags_pst ! i = 2)))"

definition spec_wide :: "real list \<Rightarrow> int list \<Rightarrow> real \<Rightarrow> bool" where
  "spec_wide widths flags_pst period =
     ((1 \<in> set flags_pst \<and> spec_mean_width widths flags_pst 1 > 0.8 * period)
      \<or> (2 \<in> set flags_pst \<and> spec_mean_width widths flags_pst 2 > 0.8 * period))"

definition code_wide :: "real list \<Rightarrow> int list \<Rightarrow> real \<Rightarrow> bool" where
  "code_wide widths flags_pst period =
     (1 \<in> set flags_pst \<and> spec_wide widths flags_pst period)"

section \<open>eclipse_finding.py: match_in_egress\<close>

text \<open>The slice \<open>xs[lo:hi]\<close>, \<open>np.std\<close>, \<open>int(k / 2)\<close> for an integer \<open>k\<close> (truncation towards
  zero), the index of the first True, and \<open>np.argmin\<close> (the first index of the minimum).\<close>

definition py_slice :: "'a list \<Rightarrow> int \<Rightarrow> int \<Rightarrow> 'a list" where
  "py_slice xs lo hi =
     (let a = slice_bound (length xs) lo; b = slice_bound (length xs) hi
      in take (b - a) (drop a xs))"

definition np_std :: "real list \<Rightarrow> real result" where
  "np_std xs =
     bind_res (mean xs) (\<lambda>m. bind_res (mean (map (\<lambda>x. (x - m)\<^sup>2) xs)) (\<lambda>v. Inr (sqrt v)))"

definition trunc_half :: "int \<Rightarrow> int" where
  "trunc_half k = (if 0 \<le> k then k div 2 else - ((- k) div 2))"

definition first_true :: "bool list \<Rightarrow> nat" where
  "first_true bs = length (takeWhile Not bs)"

definition argmin :: "real list \<Rightarrow> nat" where
  "argmin xs = length (takeWhile (\<lambda>x. x \<noteq> Min (set xs)) xs)"

text \<open>
  The dissimilarity \<open>d_stat = d_add + d_time + d_depth + d_width\<close> of the combinations of
  one ingress with one egress.
\<close>

definition rel_diff :: "real \<Rightarrow> real \<Rightarrow> real result" where
  "rel_diff x y = array_div (2 * \<bar>x - y\<bar>) (x + y)"

definition d_stat :: "real list \<Rightarrow> real list \<Rightarrow> real list \<Rightarrow> real list \<Rightarrow> (nat \<times> nat) list
    \<Rightarrow> real list result" where
  "d_stat added_snr t_peaks depths_single widths_single combs =
     (let d_time0 = map (\<lambda>(a, b). t_peaks ! b - t_peaks ! a) combs;
          mn = Min (set d_time0)
      in map_res (\<lambda>(a, b).
           bind_res (rel_diff (added_snr ! a) (added_snr ! b)) (\<lambda>d_add.
           bind_res (rel_diff (depths_single ! a) (depths_single ! b)) (\<lambda>d_depth.
           bind_res (rel_diff (widths_single ! a) (widths_single ! b)) (\<lambda>d_width.
           Inr (d_add + ((t_peaks ! b - t_peaks ! a) - mn) + d_depth + d_width))))) combs)"

text \<open>
  One pass of the loop \<open>for i in indices\<close>. The state is \<open>(used, full_ecl, until_1, until_2)\<close>;
  \<open>until_1\<close> and \<open>until_2\<close> keep their value from one pass to the next.
\<close>

definition match_step :: "real list \<Rightarrow> real list \<Rightarrow> real list \<Rightarrow> real list \<Rightarrow> bool list \<Rightarrow> bool list
    \<Rightarrow> nat \<Rightarrow> (bool list \<times> (nat \<times> nat) list \<times> nat \<times> nat) result
    \<Rightarrow> (bool list \<times> (nat \<times> nat) list \<times> nat \<times> nat) result" where
  "match_step added_snr t_peaks depths_single widths_single neg_slope pos_slope i st =
     bind_res st (\<lambda>(used, full_ecl, until_1, until_2).
     let last_i = length added_snr - 1;
         (used1, u1, u2) =
           (if i = last_i \<or> \<not> np_any (drop i neg_slope) then (used[i := True], until_1, until_2)
            else
              let v1 = i + first_true (drop i neg_slope);
                  v2 = (if v1 = last_i \<or> \<not> np_any (drop v1 pos_slope) then v1 + 1
                        else v1 + first_true (drop v1 pos_slope))
              in (used, v1, v2))
     in if \<not> used1 ! i \<and> pos_slope ! i then
          let ingress = [i..<u1];
              egress = [u1..<u2]
          in bind_res
               (if int u2 - int i > 1 then
                  let combs = List.product ingress egress
                  in if length combs > 0 then
                       bind_res (d_stat added_snr t_peaks depths_single widths_single combs)
                         (\<lambda>ds. Inr (full_ecl @ [combs ! argmin ds]))
                     else Inr full_ecl
                else Inr full_ecl)
               (\<lambda>full_ecl'. Inr (set_slice_const used1 (int i) (int u2) True, full_ecl', u1, u2))
        else Inr (used1, full_ecl, u1, u2))"

text \<open>
  The first part of \<open>match_in_egress\<close>: the candidate pairs. The arrays of the peaks are
  parallel; the model raises at once when their lengths differ.
\<close>

definition match_candidates :: "real list \<Rightarrow> real list \<Rightarrow> real list \<Rightarrow> int list \<Rightarrow> int list
    \<Rightarrow> bool list \<Rightarrow> bool list \<Rightarrow> (nat \<times> nat) list result" where
  "match_candidates tms signal_s added_snr peaks_edge peaks_bot neg_slope pos_slope =
     (let n = length added_snr
      in if length peaks_edge \<noteq> n \<or> length peaks_bot \<noteq> n \<or> length neg_slope \<noteq> n
            \<or> length pos_slope \<noteq> n then Inl IndexError
         else
           bind_res (take_at tms peaks_edge) (\<lambda>t_peaks.
           bind_res (take_at signal_s peaks_edge) (\<lambda>s_edge.
           bind_res (take_at signal_s peaks_bot) (\<lambda>s_bot.
           bind_res (take_at tms peaks_bot) (\<lambda>t_bot.
           let depths_single = map2 (\<lambda>a b. a - b) s_edge s_bot;
               widths_single = map2 (\<lambda>a b. \<bar>a - b\<bar>) t_bot t_peaks
           in bind_res (fold (match_step added_snr t_peaks depths_single widths_single
                                neg_slope pos_slope)
                          [0..<n] (Inr (replicate n False, [], 0, 0)))
                (\<lambda>(used, full_ecl, until_1, until_2). Inr full_ecl))))))"

text \<open>
  The statistics of one candidate pair in the second part of \<open>match_in_egress\<close>: the
  levels \<open>(avg_inside, std_inside, avg_outside, std_outside)\<close> of the smoothed signal, and
  the two ratios \<open>(gap_ratio, snr_diff)\<close>.
\<close>

record match_stats =
  avg_inside :: real
  avg_outside :: real
  std_inside :: real
  std_outside :: real
  gap_ratio :: real
  snr_diff :: real

definition post_match_levels :: "real list \<Rightarrow> real list \<Rightarrow> int list \<Rightarrow> int list
    \<Rightarrow> (nat \<times> nat) \<Rightarrow> (real \<times> real \<times> real \<times> real) result" where
  "post_match_levels tms signal_s peaks_edge peaks_bot ecl =
     (let max_i = int (length tms) - 1;
          pk1 = peaks_edge ! fst ecl;
          pk2 = peaks_edge ! snd ecl;
          pk1b0 = peaks_bot ! fst ecl;
          pk2b0 = peaks_bot ! snd ecl;
          pk1b1 = (if pk1b0 > pk2b0 then trunc_half (pk1 + pk1b0) else pk1b0);
          pk2b1 = (if pk1b0 > pk2b0 then trunc_half (pk2 + pk2b0) else pk2b0);
          pk1b = (if pk1b1 > pk2b1 then pk1 else pk1b1);
          pk2b = (if pk1b1 > pk2b1 then pk2 else pk2b1);
          pk1_l = max 0 (min (pk1 - (pk2 - pk1) div 2) max_i);
          pk2_r = max 0 (min (pk2 + (pk2 - pk1) div 2) (max_i - 1));
          left = py_slice signal_s pk1_l (pk1 + 1);
          right = py_slice signal_s pk2 (pk2_r + 1)
      in bind_res (mean (py_slice signal_s pk1b (pk2b + 1))) (\<lambda>avg_in.
         bind_res (np_std (py_slice signal_s pk1b (pk2b + 1))) (\<lambda>std_in.
         bind_res
           (if pk1 > 0 \<and> pk2 < max_i then
              bind_res (mean left) (\<lambda>ml. bind_res (mean right) (\<lambda>mr.
              bind_res (np_std left) (\<lambda>sl. bind_res (np_std right) (\<lambda>sr.
              Inr (ml / 2 + mr / 2, sl / 2 + sr / 2)))))
            else if pk1 > 0 then
              bind_res (mean left) (\<lambda>ml. bind_res (np_std left) (\<lambda>sl. Inr (ml, sl)))
            else if pk2 < max_i then
              bind_res (mean right) (\<lambda>mr. bind_res (np_std right) (\<lambda>sr. Inr (mr, sr)))
            else Inr (0, 0)) (\<lambda>(avg_out, std_out).
         Inr (avg_in, std_in, avg_out, std_out)))))"

definition post_match_ratios :: "real list \<Rightarrow> real list \<Rightarrow> int list \<Rightarrow> (nat \<times> nat)
    \<Rightarrow> (real \<times> real) result" where
  "post_match_ratios tms added_snr peaks_edge ecl =
     bind_res (py_index tms (peaks_edge ! snd ecl)) (\<lambda>t2.
     bind_res (py_index tms (peaks_edge ! fst ecl)) (\<lambda>t1.
     bind_res (median (np_diff tms)) (\<lambda>t_step.
     bind_res (scalar_div (t2 - t1) t_step) (\<lambda>w.
     bind_res (scalar_div (real_of_int (peaks_edge ! snd ecl - peaks_edge ! fst ecl)) w) (\<lambda>ratio.
     bind_res (scalar_div (max (added_snr ! fst ecl) (added_snr ! snd ecl))
                 (min (added_snr ! fst ecl) (added_snr ! snd ecl))) (\<lambda>sd.
     Inr (ratio, sd)))))))"

definition post_match_stats :: "real list \<Rightarrow> real list \<Rightarrow> real list \<Rightarrow> int list \<Rightarrow> int list
    \<Rightarrow> (nat \<times> nat) \<Rightarrow> match_stats result" where
  "post_match_stats tms signal_s added_snr peaks_edge peaks_bot ecl =
     bind_res (post_match_levels tms signal_s peaks_edge peaks_bot ecl) (\<lambda>lv.
     bind_res (post_match_ratios tms added_snr peaks_edge ecl) (\<lambda>rt.
     Inr \<lparr>avg_inside = fst lv, avg_outside = fst (snd (snd lv)), std_inside = fst (snd lv),
          std_outside = snd (snd (snd lv)), gap_ratio = fst rt, snr_diff = snd rt\<rparr>))"

definition passed :: "match_stats \<Rightarrow> bool" where
  "passed s \<longleftrightarrow> avg_outside s - avg_inside s > min (std_inside s) (std_outside s)
                \<and> gap_ratio s > 0.5 \<and> snr_diff s < 1.8"

text \<open>
  \<open>match_in_egress\<close> returns \<open>(full_ecl, not_used)\<close>: the candidate pairs that pass, and the
  mask of the peaks that are in none of them.
\<close>

definition match_in_egress :: "real list \<Rightarrow> real list \<Rightarrow> real list \<Rightarrow> int list \<Rightarrow> int list
    \<Rightarrow> bool list \<Rightarrow> bool list \<Rightarrow> ((nat \<times> nat) list \<times> bool list) result" where
  "match_in_egress tms signal_s added_snr peaks_edge peaks_bot neg_slope pos_slope =
     bind_res (match_candidates tms signal_s added_snr peaks_edge peaks_bot neg_slope pos_slope)
       (\<lambda>cands.
     if length cands = 0 then Inr ([], replicate (length added_snr) True)
     else
       bind_res (map_res (post_match_stats tms signal_s added_snr peaks_edge peaks_bot) cands)
         (\<lambda>stats.
       let full_ecl = select cands (map passed stats);
           not_used = map (\<lambda>k. k \<notin> fst ` set full_ecl \<and> k \<notin> snd ` set full_ecl)
                        [0..<length added_snr]
       in Inr (full_ecl, not_used)))"


text \<open>
  The specification's words for the levels: the average of a stretch of the smoothed
  signal and its scatter (the standard deviation); the stretch inside the eclipse, between
  the two bottom points (between the points half way to the edges if the bottom points
  are in the wrong order, and between the edges if those are too); the flanking
  stretches, half the width of the eclipse to the left of the first edge and to the right
  of the second edge; and the level of the flanks, the mean of the two sides, or one side
  if the eclipse starts at the first or ends at the last point of the time series.
\<close>

definition spec_average :: "real list \<Rightarrow> real" where
  "spec_average xs = sum_list xs / real (length xs)"

definition spec_scatter :: "real list \<Rightarrow> real" where
  "spec_scatter xs = sqrt (sum_list (map (\<lambda>x. (x - spec_average xs)\<^sup>2) xs) / real (length xs))"

definition inside_stretch :: "real list \<Rightarrow> int \<Rightarrow> int \<Rightarrow> int \<Rightarrow> int \<Rightarrow> real list" where
  "inside_stretch signal_s pk1 pk2 b1 b2 =
     (if b1 \<le> b2 then py_slice signal_s b1 (b2 + 1)
      else if trunc_half (pk1 + b1) \<le> trunc_half (pk2 + b2)
      then py_slice signal_s (trunc_half (pk1 + b1)) (trunc_half (pk2 + b2) + 1)
      else py_slice signal_s pk1 (pk2 + 1))"

definition left_flank :: "real list \<Rightarrow> int \<Rightarrow> int \<Rightarrow> int \<Rightarrow> real list" where
  "left_flank signal_s max_i pk1 pk2 =
     py_slice signal_s (max 0 (min (pk1 - (pk2 - pk1) div 2) max_i)) (pk1 + 1)"

definition right_flank :: "real list \<Rightarrow> int \<Rightarrow> int \<Rightarrow> int \<Rightarrow> real list" where
  "right_flank signal_s max_i pk1 pk2 =
     py_slice signal_s pk2 (max 0 (min (pk2 + (pk2 - pk1) div 2) (max_i - 1)) + 1)"

definition flank_level :: "(real list \<Rightarrow> real) \<Rightarrow> real list \<Rightarrow> int \<Rightarrow> int \<Rightarrow> int \<Rightarrow> real" where
  "flank_level f signal_s max_i pk1 pk2 =
     (if 0 < pk1 \<and> pk2 < max_i
      then f (left_flank signal_s max_i pk1 pk2) / 2 + f (right_flank signal_s max_i pk1 pk2) / 2
      else if 0 < pk1 then f (left_flank signal_s max_i pk1 pk2)
      else if pk2 < max_i then f (right_flank signal_s max_i pk1 pk2)
      else 0)"
section \<open>eclipse_finding.py: estimate_period\<close>

text \<open>More of numpy: indexing with an array of positions, assignment at positions,
  \<open>np.argmax\<close> (the first index of the maximum), \<open>np.argsort\<close> (ties in index order), and
  \<open>np.histogram\<close> with a number of bins, in exact arithmetic: the range goes from the minimum
  to the maximum of the data (widened by 0.5 on both sides when they are equal), the last
  bin includes its right edge.\<close>

definition take_nat :: "'a list \<Rightarrow> nat list \<Rightarrow> 'a list result" where
  "take_nat xs idx = take_at xs (map int idx)"

definition put_at :: "'a list \<Rightarrow> nat list \<Rightarrow> 'a \<Rightarrow> 'a list result" where
  "put_at xs idx v =
     (if \<forall>j \<in> set idx. j < length xs then Inr (fold (\<lambda>j ys. ys[j := v]) idx xs)
      else Inl IndexError)"

definition argmax :: "real list \<Rightarrow> nat" where
  "argmax xs = length (takeWhile (\<lambda>x. x \<noteq> Max (set xs)) xs)"

definition argsort :: "real list \<Rightarrow> nat list" where
  "argsort xs = sort_key (\<lambda>i. xs ! i) [0..<length xs]"

definition hist_edges :: "real list \<Rightarrow> nat \<Rightarrow> real list" where
  "hist_edges a bins =
     (let lo0 = (if a = [] then 0 else Min (set a));
          hi0 = (if a = [] then 1 else Max (set a));
          lo = (if lo0 = hi0 then lo0 - 0.5 else lo0);
          hi = (if lo0 = hi0 then hi0 + 0.5 else hi0)
      in map (\<lambda>k. lo + real k * (hi - lo) / real bins) [0..<bins + 1])"

definition hist_bin :: "real list \<Rightarrow> nat \<Rightarrow> real \<Rightarrow> nat" where
  "hist_bin edges bins x =
     min (bins - 1) (nat \<lfloor>real bins * (x - edges ! 0) / (edges ! bins - edges ! 0)\<rfloor>)"

definition histogram :: "real list \<Rightarrow> real list \<Rightarrow> nat \<Rightarrow> real list \<times> real list" where
  "histogram a weights bins =
     (let edges = hist_edges a bins
      in (map (\<lambda>k. sum_list (map snd (filter (\<lambda>(x, w). hist_bin edges bins x = k) (zip a weights))))
            [0..<bins],
          edges))"

text \<open>
  \<open>extract_pattern\<close>: the eclipses within half their width of a point of the pattern,
  one per point of the pattern.
\<close>

definition resolve_double :: "real list \<Rightarrow> int list \<Rightarrow> real \<Rightarrow> int \<Rightarrow> bool list result
    \<Rightarrow> bool list result" where
  "resolve_double added_snr i_nn ref_snr pp st =
     bind_res st (\<lambda>cn_w.
     let indices = [0..<length cn_w];
         i_compare = select (select indices cn_w) (map (\<lambda>i. i = pp) (select i_nn cn_w))
     in bind_res (take_nat added_snr i_compare) (\<lambda>snrs.
        if snrs = [] then Inl ValueError
        else
          let closest = argmin (map (\<lambda>s. \<bar>s - ref_snr\<bar>) snrs)
          in bind_res (put_at cn_w i_compare False) (\<lambda>cn_w1.
             put_at cn_w1 [i_compare ! closest] True)))"

definition extract_pattern :: "real list \<Rightarrow> real list \<Rightarrow> real list \<Rightarrow> real \<Rightarrow> real
    \<Rightarrow> real \<times> real \<Rightarrow> nat list result" where
  "extract_pattern ecl_mid widths added_snr t_0 ecl_period time_frame =
     (let indices = [0..<length ecl_mid]
      in bind_res (construct_range t_0 ecl_period time_frame 0.1) (\<lambda>(pattern, n_range).
         if pattern = [] \<and> ecl_mid \<noteq> [] then Inl IndexError
         else if length widths \<noteq> length ecl_mid then Inl ValueError
         else
           let i_nn = map (nearest_index pattern) ecl_mid;
               d_nn = map (nearest_dist pattern) ecl_mid;
               cn_w = map2 (\<lambda>d w. div_less d w 0.5) d_nn widths;
               p_diff = map2 (\<lambda>x y. x - y) (tl (select i_nn cn_w)) (butlast (select i_nn cn_w))
           in if np_any (map (\<lambda>d. d = 0) p_diff) then
                let dup0 = map (\<lambda>d. d = 0) p_diff @ [False];
                    dup_mask = hd dup0 # map2 (\<or>) (tl dup0) (map (\<lambda>d. d = 0) p_diff);
                    i_not_double = select (select indices cn_w) (map Not dup_mask)
                in bind_res (if length i_not_double > 0
                             then bind_res (take_nat added_snr i_not_double) mean
                             else bind_res (select_checked added_snr cn_w) np_max) (\<lambda>ref_snr.
                   let double_pp = remdups (sort (select (select i_nn cn_w) dup_mask))
                   in bind_res (fold (resolve_double added_snr i_nn ref_snr) double_pp (Inr cn_w))
                        (\<lambda>cn_w'. Inr (select indices cn_w')))
              else Inr (select indices cn_w)))"

text \<open>
  \<open>measure_phase_dev\<close> returns \<open>(phases, phase_dev)\<close>, one row of phases and one deviation
  for each period.
\<close>

definition measure_phase_dev :: "real list \<Rightarrow> real list \<Rightarrow> (real list list \<times> real list) result" where
  "measure_phase_dev periods ecl_mid =
     bind_res (py_index ecl_mid 0) (\<lambda>zero_point.
     bind_res (map_res (\<lambda>p. fold_time_series ecl_mid p zero_point) periods) (\<lambda>phases.
     bind_res (map_res (\<lambda>row. bind_res (mean row) (\<lambda>m. Inr (sum_list (map (\<lambda>x. \<bar>x - m\<bar>) row))))
                 phases) (\<lambda>dev.
     Inr (phases, map (\<lambda>d. d / real (length ecl_mid)) dev))))"

text \<open>
  \<open>add_missing_ecl\<close>: the eclipses near the average phase of the grp, at most one per
  half period.
\<close>

definition add_missing_step :: "real list \<Rightarrow> real list \<Rightarrow> nat list \<Rightarrow> real \<Rightarrow> nat
    \<Rightarrow> bool list result \<Rightarrow> bool list result" where
  "add_missing_step ecl_mid added_snr g_candidates period i st =
     bind_res st (\<lambda>g_bool.
     let nearby = map (\<lambda>c. \<bar>ecl_mid ! c - ecl_mid ! i\<bar> < 0.5 * period) g_candidates
     in if count_true nearby > 1 then
          let near = select g_candidates nearby
          in bind_res (put_at g_bool near False) (\<lambda>g_bool1.
             bind_res (take_nat added_snr near) (\<lambda>snrs.
             put_at g_bool1 [near ! argmax snrs] True))
        else Inr g_bool)"

definition add_missing_ecl :: "nat list \<Rightarrow> real list \<Rightarrow> real list \<Rightarrow> real list \<Rightarrow> real \<Rightarrow> real
    \<Rightarrow> real \<Rightarrow> nat list result" where
  "add_missing_ecl grp ecl_mid phases added_snr g_avg_phase g_avg_w period =
     (let ecl_i = [0..<length ecl_mid]
      in bind_res (take_nat added_snr grp) (\<lambda>snr_g.
         bind_res (mean snr_g) (\<lambda>g_avg_snr. bind_res (np_std snr_g) (\<lambda>g_std0.
         let g_std_snr = (if g_std0 = 0 then 10 else g_std0)
         in if length phases \<noteq> length added_snr \<or> length phases \<noteq> length ecl_mid
            then Inl ValueError
            else
              let g_bool = map2 (\<lambda>ph s. \<bar>ph - g_avg_phase\<bar> < 0.5 * g_avg_w
                                        \<and> \<bar>s - g_avg_snr\<bar> < 3 * g_std_snr) phases added_snr;
                  g_candidates = select ecl_i g_bool
              in if length g_candidates > length grp then
                   bind_res (fold (add_missing_step ecl_mid added_snr g_candidates period)
                               g_candidates (Inr g_bool)) (\<lambda>g_bool'.
                   Inr (if length (select ecl_i g_bool') > length grp
                        then select ecl_i g_bool' else grp))
                 else Inr grp))))"

text \<open>\<open>test_separation\<close> and \<open>determine_primary\<close>; the groups are arrays of positions.\<close>

definition test_separation :: "real list \<Rightarrow> nat list \<Rightarrow> nat list \<Rightarrow> bool result" where
  "test_separation variable group_1 group_2 =
     bind_res (take_nat variable group_1) (\<lambda>v1. bind_res (take_nat variable group_2) (\<lambda>v2.
     if length v2 < 3 \<or> length v1 < 3 then Inr False
     else if length v1 + length v2 < 8 then
       bind_res (mean v1) (\<lambda>g1_avg. bind_res (mean v2) (\<lambda>g2_avg.
       Inr (max g1_avg g2_avg > 1.5 * min g1_avg g2_avg)))
     else
       bind_res (mean v1) (\<lambda>g1_avg. bind_res (mean v2) (\<lambda>g2_avg.
       bind_res (np_std v1) (\<lambda>g1_std. bind_res (np_std v2) (\<lambda>g2_std.
       Inr (\<bar>g1_avg - g2_avg\<bar> > max g1_std g2_std)))))))"

definition mean_greater :: "real list \<Rightarrow> nat list \<Rightarrow> nat list \<Rightarrow> bool result" where
  "mean_greater variable group_1 group_2 =
     bind_res (bind_res (take_nat variable group_1) mean) (\<lambda>a.
     bind_res (bind_res (take_nat variable group_2) mean) (\<lambda>b. Inr (a > b)))"

definition determine_primary :: "nat list \<Rightarrow> nat list \<Rightarrow> real list \<Rightarrow> real list \<Rightarrow> real list
    \<Rightarrow> bool result" where
  "determine_primary group_1 group_2 depths widths added_snr =
     bind_res (take_nat added_snr group_1) (\<lambda>s1. bind_res (take_nat added_snr group_2) (\<lambda>s2.
     if length s1 \<noteq> 0 \<and> length s2 \<noteq> 0 then
       bind_res (test_separation depths group_1 group_2) (\<lambda>sep_d.
       if sep_d then mean_greater depths group_1 group_2
       else
         bind_res (test_separation added_snr group_1 group_2) (\<lambda>sep_s.
         if sep_s then mean_greater added_snr group_1 group_2
         else
           bind_res (test_separation widths group_1 group_2) (\<lambda>sep_w.
           if sep_w then mean_greater widths group_1 group_2
           else mean_greater added_snr group_1 group_2)))
     else if length s1 = 0 \<and> length s2 \<noteq> 0 then Inr False
     else Inr True))"

text \<open>
  \<open>estimate_period(ecl_mid, widths, depths, added_snr, flags_lrf, timestep)\<close> returns
  \<open>(t_zero, period, flags_pst)\<close>. The function is plain numpy: the mean of an empty
  selection is \<open>nan\<close>, and every comparison with \<open>nan\<close> is False. The model follows the
  function in its own order: the time domain, the first estimate of the period (for more
  than two eclipses after sorting all arrays by midpoint), the two groups of eclipses, and
  the flags with the time of the first primary.
\<close>

record ecl_arrays =
  mid :: "real list"
  wid :: "real list"
  dep :: "real list"
  snr :: "real list"
  full :: "bool list"

definition time_domain :: "real list \<Rightarrow> (real \<times> real) result" where
  "time_domain ecl_mid =
     bind_res (np_min ecl_mid) (\<lambda>lo. bind_res (np_max ecl_mid) (\<lambda>hi.
     let time_padding = 0.05 * (hi - lo) / real (length ecl_mid)
     in Inr (lo - time_padding, hi + time_padding)))"

text \<open>The reference eclipse \<open>ecl_0\<close>, returned with \<open>high_snr\<close>. Without an eclipse of high
  signal to noise \<open>target_snr\<close> is \<open>nan\<close>, no eclipse passes \<open>added_snr >= target_snr\<close>, and
  the element 0 of an empty array is taken.\<close>

definition reference_eclipse :: "real list \<Rightarrow> bool list \<Rightarrow> (nat \<times> bool list) result" where
  "reference_eclipse added_snr m_full =
     bind_res (mean added_snr) (\<lambda>mn. bind_res (np_max added_snr) (\<lambda>mx.
     let snr_ref = max mn (0.5 * mx);
         ecl_i = [0..<length added_snr];
         high_snr = map (\<lambda>s. s > snr_ref) added_snr
     in if select added_snr high_snr = [] then Inl IndexError
        else
          bind_res (median (select added_snr high_snr)) (\<lambda>target_snr.
          bind_res (select_checked added_snr m_full) (\<lambda>snr_full.
          if np_any (map (\<lambda>s. s \<ge> target_snr) snr_full)
          then Inr (hd (select (select ecl_i m_full) (map (\<lambda>s. s \<ge> target_snr) snr_full)),
                    high_snr)
          else
            let cand = select ecl_i (map (\<lambda>s. s \<ge> target_snr) added_snr)
            in if cand = [] then Inl IndexError else Inr (hd cand, high_snr)))))"

definition search_limit :: "real list \<Rightarrow> bool list \<Rightarrow> real result" where
  "search_limit ecl_mid high_snr =
     (if length (select ecl_mid high_snr) > 1 then
        bind_res (median (np_diff (select ecl_mid high_snr))) (\<lambda>m.
        if 3 * m < 0.001 then bind_res (median (np_diff ecl_mid)) (\<lambda>m2. Inr (3 * m2))
        else Inr (3 * m))
      else bind_res (median (np_diff ecl_mid)) (\<lambda>m2. Inr (3 * m2)))"

text \<open>The refinement of the best period of the grid, on the eclipses of the pattern.\<close>

definition refine_period :: "real list \<Rightarrow> real list \<Rightarrow> real \<Rightarrow> nat list \<Rightarrow> real result" where
  "refine_period ecl_mid periods p_best ecl_included =
     (if length periods < 2 then Inl ValueError
      else
        bind_res (mean (np_diff periods)) (\<lambda>md.
        let dp = 3 * md
        in bind_res (arange (p_best - dp) (p_best + dp) (dp / 300)) (\<lambda>period_range.
           bind_res (take_nat ecl_mid ecl_included) (\<lambda>mids.
           bind_res (measure_phase_dev period_range mids) (\<lambda>(all_phases, phase_dev).
           if phase_dev = [] then Inl ValueError
           else Inr (period_range ! argmin phase_dev))))))"

definition period_search :: "ecl_arrays \<Rightarrow> real \<times> real \<Rightarrow> real \<Rightarrow> (real \<times> nat list) result" where
  "period_search d domain timestep =
     bind_res (reference_eclipse (snr d) (full d)) (\<lambda>(ecl_0, high_snr).
     bind_res (search_limit (mid d) high_snr) (\<lambda>p_max.
     if p_max > 0.001 then
       bind_res (np_min (dep d)) (\<lambda>dmin.
       bind_res (map_res (\<lambda>x. array_div x dmin) (dep d)) (\<lambda>height.
       bind_res (pattern_test (mid d) height (map (\<lambda>w. w / 2) (wid d)) domain
                   (Some (int ecl_0)) (Some p_max) None timestep) (\<lambda>(periods, gof).
       if gof = [] then Inl ValueError
       else
         let best = argmax gof;
             p_best = periods ! best
         in bind_res (py_index (mid d) (int ecl_0)) (\<lambda>t_ref.
            bind_res (extract_pattern (mid d) (wid d) (snr d) t_ref p_best domain)
              (\<lambda>ecl_included.
            bind_res (refine_period (mid d) periods p_best ecl_included) (\<lambda>period.
            Inr (period, ecl_included)))))))
     else Inr (-1, [])))"

text \<open>The first estimate returns \<open>(period, ecl_included, ecl_sorter)\<close> and the arrays, sorted
  if there are more than two eclipses.\<close>

definition first_estimate :: "ecl_arrays \<Rightarrow> real \<times> real \<Rightarrow> real
    \<Rightarrow> (real \<times> nat list \<times> nat list \<times> ecl_arrays) result" where
  "first_estimate d domain timestep =
     (let n_ecl = length (mid d)
      in if n_ecl < 2 then Inr (-1, [], [], d)
         else if n_ecl = 2 then
           let period = \<bar>mid d ! 1 - mid d ! 0\<bar>
           in if period < 0.01 then Inr (-1, [], [], d) else Inr (period, [0, 1], [], d)
         else
           let ecl_sorter = argsort (mid d)
           in bind_res (take_nat (mid d) ecl_sorter) (\<lambda>m.
              bind_res (take_nat (wid d) ecl_sorter) (\<lambda>w.
              bind_res (take_nat (dep d) ecl_sorter) (\<lambda>dp.
              bind_res (take_nat (snr d) ecl_sorter) (\<lambda>s.
              bind_res (take_nat (full d) ecl_sorter) (\<lambda>f.
              let d' = \<lparr>mid = m, wid = w, dep = dp, snr = s, full = f\<rparr>
              in bind_res (period_search d' domain timestep) (\<lambda>(period, ecl_included).
                 Inr (period, ecl_included, ecl_sorter, d'))))))))"

text \<open>The test of the doubled period: the two groups at twice the period, and whether they
  differ in phase, depth, signal to noise or width.\<close>

definition put_values :: "'a list \<Rightarrow> nat list \<Rightarrow> 'a list \<Rightarrow> 'a list result" where
  "put_values xs idx vs =
     (if length idx \<noteq> length vs then Inl ValueError
      else if \<forall>j \<in> set idx. j < length xs
      then Inr (fold (\<lambda>(j, v) ys. ys[j := v]) (zip idx vs) xs)
      else Inl IndexError)"

definition folded_group :: "real list \<Rightarrow> nat list \<Rightarrow> real \<Rightarrow> real \<Rightarrow> real list result" where
  "folded_group ecl_mid g period zero =
     bind_res (take_nat ecl_mid g) (\<lambda>m. fold_time_series m period zero)"

definition double_period_test :: "ecl_arrays \<Rightarrow> nat \<Rightarrow> real \<Rightarrow> real \<Rightarrow> real \<times> real
    \<Rightarrow> (bool \<times> nat list \<times> nat list) result" where
  "double_period_test d n_full_ecl t_0 period domain =
     bind_res (extract_pattern (mid d) (wid d) (snr d) t_0 (2 * period) domain) (\<lambda>g1.
     bind_res (extract_pattern (mid d) (wid d) (snr d) (t_0 + period) (2 * period) domain) (\<lambda>g2.
     bind_res (if n_full_ecl > 3 then
                 bind_res (folded_group (mid d) g1 (2 * period) t_0) (\<lambda>ph1.
                 bind_res (put_values (replicate (length (mid d)) 0) g1 ph1) (\<lambda>p1.
                 bind_res (folded_group (mid d) g2 (2 * period) (t_0 + period)) (\<lambda>ph2.
                 bind_res (put_values p1 g2 ph2) (\<lambda>phases_g12.
                 test_separation phases_g12 g1 g2))))
               else Inr False) (\<lambda>separate_p.
     bind_res (test_separation (dep d) g1 g2) (\<lambda>separate_d.
     bind_res (test_separation (snr d) g1 g2) (\<lambda>separate_s.
     bind_res (test_separation (wid d) g1 g2) (\<lambda>separate_w.
     Inr (separate_p \<or> separate_d \<or> separate_s \<or> separate_w, g1, g2)))))))"

text \<open>The second group when the period was not doubled: the eclipses outside the first
  group near the phase of the highest bin of a histogram of the shifted phases. If no
  eclipse lies in the chosen bin, \<open>avg_phase\<close> is \<open>nan\<close> and the group is empty.\<close>

definition near_bin :: "real list \<Rightarrow> real list \<Rightarrow> nat list \<Rightarrow> real \<Rightarrow> real \<Rightarrow> real
    \<Rightarrow> nat list" where
  "near_bin phases2 coord not_included lo hi phase_lim =
     (let in_bin = map (\<lambda>x. x \<ge> lo \<and> x \<le> hi) coord
      in if select phases2 in_bin = [] then []
         else
           let avg_phase = sum_list (select phases2 in_bin) / real (length (select phases2 in_bin))
           in filter (\<lambda>i. \<bar>phases2 ! i - avg_phase\<bar> < phase_lim) not_included)"

definition second_group :: "real list \<Rightarrow> real list \<Rightarrow> nat \<Rightarrow> nat list \<Rightarrow> real \<Rightarrow> real \<Rightarrow> real
    \<Rightarrow> nat list result" where
  "second_group phases2 added_snr n_ecl g1 g1_avg_phase g1_avg_w phase_lim =
     bind_res (put_at (replicate n_ecl True) g1 False) (\<lambda>not_included_bool.
     let not_included = select [0..<n_ecl] not_included_bool
     in if length not_included > 0 then
          bind_res (take_nat phases2 not_included) (\<lambda>ph_ni.
          bind_res (take_nat added_snr not_included) (\<lambda>snr_ni.
          let (hist, edges) = histogram (map (\<lambda>x. py_fmod x 1) ph_ni) snr_ni 50;
              not_g1 = map2 (\<lambda>e1 e0. e1 - (g1_avg_phase + 0.5) > 0.55 * g1_avg_w
                                     \<or> e0 - (g1_avg_phase + 0.5) < - 0.55 * g1_avg_w)
                         (tl edges) (butlast edges)
          in if np_any not_g1 then
               let hist_max = argmax (select hist not_g1);
                   g2 = near_bin phases2 (map (\<lambda>x. py_fmod x 1) phases2) not_included
                          (select (butlast edges) not_g1 ! hist_max)
                          (select (tl edges) not_g1 ! hist_max) phase_lim
               in if length g2 = 1 then
                    let (hist2, edges2) = histogram ph_ni (replicate (length ph_ni) 1) 50;
                        hist_max2 = argmax (select hist2 not_g1)
                    in if hist_max2 > 1
                       then Inr (near_bin phases2 phases2 not_included
                                   (select (butlast edges2) not_g1 ! hist_max2)
                                   (select (tl edges2) not_g1 ! hist_max2) phase_lim)
                       else Inr g2
                  else Inr g2
             else Inr []))
        else Inr [])"

text \<open>The average phase and width (in units of the period) of a group, the search for
  missing eclipses of a group, and the removal of eclipses that are too narrow or too
  wide from a group of more than two.\<close>

definition group_average :: "real list \<Rightarrow> real list \<Rightarrow> nat list \<Rightarrow> real \<Rightarrow> (real \<times> real) result" where
  "group_average phases widths g period =
     bind_res (bind_res (take_nat phases g) mean) (\<lambda>g_avg_phase.
     bind_res (bind_res (take_nat widths g) mean) (\<lambda>mw.
     Inr (g_avg_phase, mw / period)))"

definition width_filter :: "real list \<Rightarrow> real \<Rightarrow> nat list \<Rightarrow> nat list result" where
  "width_filter widths period g =
     (if length g > 2 then
        bind_res (take_nat widths g) (\<lambda>wg. bind_res (median wg) (\<lambda>g_med_w.
        Inr (select g (map (\<lambda>w. w > 0.4 * g_med_w \<and> w < 0.5 * period) wg))))
      else Inr g)"

definition choose_primary :: "ecl_arrays \<Rightarrow> real \<Rightarrow> nat list \<Rightarrow> nat list
    \<Rightarrow> (bool \<times> nat list \<times> nat list) result" where
  "choose_primary d period g1 g2 =
     (if real (length g2) < max 2 (0.05 * real (length g1)) then Inr (True, g1, [])
      else if length g1 > 2 \<and> length g2 > 2 then
        bind_res (bind_res (take_nat (wid d) g1) mean) (\<lambda>avg_w_1.
        bind_res (bind_res (take_nat (wid d) g2) mean) (\<lambda>avg_w_2.
        if avg_w_1 > 0.8 * period then Inr (True, g1, [])
        else if avg_w_2 > 0.8 * period then Inr (False, [], g2)
        else bind_res (determine_primary g1 g2 (dep d) (wid d) (snr d))
               (\<lambda>primary_g1. Inr (primary_g1, g1, g2))))
      else bind_res (determine_primary g1 g2 (dep d) (wid d) (snr d))
             (\<lambda>primary_g1. Inr (primary_g1, g1, g2)))"

text \<open>The two groups for the final period, returned as \<open>(primary_g1, g1, g2)\<close>.\<close>

definition split_groups :: "ecl_arrays \<Rightarrow> real \<Rightarrow> real \<Rightarrow> real \<times> real \<Rightarrow> real \<Rightarrow> bool
    \<Rightarrow> nat list \<Rightarrow> nat list \<Rightarrow> (bool \<times> nat list \<times> nat list) result" where
  "split_groups d t_0 period domain timestep double_p_sep g1d g2d =
     bind_res (array_div (2.4 * timestep) period) (\<lambda>q.
     let phase_lim = max 0.02 q
     in bind_res (fold_time_series (mid d) period t_0) (\<lambda>phases.
        let phases2 = map (\<lambda>p. py_fmod p 1 - 0.5) phases
        in bind_res (if \<not> double_p_sep
                     then extract_pattern (mid d) (wid d) (snr d) t_0 period domain
                     else Inr g1d) (\<lambda>g1.
           bind_res (if length g1 > 0 then group_average phases (wid d) g1 period
                     else Inr (0, 0)) (\<lambda>(g1_avg_phase, g1_avg_w).
           bind_res (if \<not> double_p_sep
                     then second_group phases2 (snr d) (length (mid d)) g1 g1_avg_phase g1_avg_w
                            phase_lim
                     else Inr g2d) (\<lambda>g2.
           bind_res (if length g1 > 0
                     then add_missing_ecl g1 (mid d) phases (snr d) g1_avg_phase g1_avg_w period
                     else Inr g1) (\<lambda>g1a.
           bind_res (if length g2 > 0
                     then bind_res (group_average phases2 (wid d) g2 period)
                            (\<lambda>(g2_avg_phase, g2_avg_w).
                          add_missing_ecl g2 (mid d) phases2 (snr d) g2_avg_phase g2_avg_w period)
                     else Inr g2) (\<lambda>g2a.
           bind_res (width_filter (wid d) period g1a) (\<lambda>g1b.
           bind_res (width_filter (wid d) period g2a) (\<lambda>g2b.
           choose_primary d period g1b g2b)))))))))"

text \<open>The groups with the final period, returned as \<open>(period, primary_g1, g1, g2)\<close>: the
  period is doubled if the two groups at twice the period are different.\<close>

definition group_eclipses :: "ecl_arrays \<Rightarrow> nat \<Rightarrow> real \<Rightarrow> nat list \<Rightarrow> real \<times> real \<Rightarrow> real
    \<Rightarrow> (real \<times> bool \<times> nat list \<times> nat list) result" where
  "group_eclipses d n_full_ecl period ecl_included domain timestep =
     bind_res (take_nat (mid d) ecl_included) (\<lambda>inc.
     if inc = [] then Inl IndexError
     else
       let t_0 = hd inc
       in bind_res (if length ecl_included > 2
                    then double_period_test d n_full_ecl t_0 period domain
                    else Inr (False, [], [])) (\<lambda>(double_p_sep, g1d, g2d).
          let period' = (if double_p_sep then 2 * period else period)
          in bind_res (split_groups d t_0 period' domain timestep double_p_sep g1d g2d)
               (\<lambda>(primary_g1, g1, g2). Inr (period', primary_g1, g1, g2))))"

text \<open>The flags, the check of the likeness of two primaries, and the time of the first
  (full) primary.\<close>

definition assign_flags :: "nat \<Rightarrow> nat list \<Rightarrow> nat list \<Rightarrow> bool \<Rightarrow> int list result" where
  "assign_flags n g1 g2 primary_g1 =
     bind_res (put_at (replicate n 0) g1 (if primary_g1 then 1 else 2)) (\<lambda>f1.
     bind_res (put_at f1 g2 (if primary_g1 then 2 else 1)) (\<lambda>f2.
     Inr (map (\<lambda>f. if f = 0 then 3 else f) f2)))"

definition final_flags :: "ecl_arrays \<Rightarrow> int list \<Rightarrow> real \<Rightarrow> (real \<times> real \<times> int list) result" where
  "final_flags d flags_pst period =
     bind_res (select_checked (snr d) (map (\<lambda>f. f = 1) flags_pst)) (\<lambda>snr_p.
     let revoke = (length snr_p = 2 \<and> np_any (map2 (\<lambda>a b. a < b / 2) snr_p (rev snr_p)));
         flags1 = (if revoke then map (\<lambda>f. if f = 1 \<or> f = 2 then 3 else f) flags_pst
                   else flags_pst);
         period1 = (if revoke then - 1 else period);
         primaries = map (\<lambda>f. f = 1) flags1
     in if length (full d) \<noteq> length primaries then Inl ValueError
        else
          let full_primaries = map2 (\<and>) (full d) primaries
          in if np_any full_primaries
             then bind_res (select_checked (mid d) full_primaries) (\<lambda>m. Inr (hd m, period1, flags1))
             else if np_any primaries
             then bind_res (select_checked (mid d) primaries) (\<lambda>m. Inr (hd m, period1, flags1))
             else Inr (- 1, - 1, flags1))"

definition estimate_period :: "real list \<Rightarrow> real list \<Rightarrow> real list \<Rightarrow> real list \<Rightarrow> int list \<Rightarrow> real
    \<Rightarrow> (real \<times> real \<times> int list) result" where
  "estimate_period ecl_mid widths depths added_snr flags_lrf timestep =
     (let n_ecl = length ecl_mid;
          m_full = map (\<lambda>f. f = 0) flags_lrf;
          n_full_ecl = count_true m_full;
          d0 = \<lparr>mid = ecl_mid, wid = widths, dep = depths, snr = added_snr, full = m_full\<rparr>
      in bind_res (time_domain ecl_mid) (\<lambda>domain.
         bind_res (first_estimate d0 domain timestep) (\<lambda>(period, ecl_included, ecl_sorter, d).
         if period \<noteq> - 1 then
           bind_res (group_eclipses d n_full_ecl period ecl_included domain timestep)
             (\<lambda>(period', primary_g1, g1, g2).
           bind_res (assign_flags (length (mid d)) g1 g2 primary_g1) (\<lambda>flags_pst.
           bind_res (final_flags d flags_pst period') (\<lambda>(t_zero, period'', flags1).
           if n_ecl > 2
           then bind_res (take_nat flags1 (argsort (map real ecl_sorter)))
                  (\<lambda>flags2. Inr (t_zero, period'', flags2))
           else Inr (t_zero, period'', flags1))))
         else Inr (- 1, period, replicate (length (mid d)) 3))))"

section \<open>Basic facts about the helpers\<close>


lemma bind_res_Inr [simp]: "bind_res (Inr x) f = f x"
  by (simp add: bind_res_def)

lemma bind_res_Inl [simp]: "bind_res (Inl e) f = Inl e"
  by (simp add: bind_res_def)

lemma bind_res_eq_Inr: "bind_res m f = Inr y \<longleftrightarrow> (\<exists>x. m = Inr x \<and> f x = Inr y)"
  by (cases m) simp_all

lemma map_res_Inr:
  "map_res f xs = Inr ys \<Longrightarrow> length ys = length xs \<and> (\<forall>i < length xs. f (xs ! i) = Inr (ys ! i))"
proof (induction xs arbitrary: ys)
  case Nil
  then show ?case by simp
next
  case (Cons x xs)
  from Cons.prems obtain y ys' where y: "f x = Inr y" and ys': "map_res f xs = Inr ys'"
    and ys: "ys = y # ys'"
    by (auto simp: bind_res_eq_Inr)
  from Cons.IH [OF ys'] have ih: "length ys' = length xs" "\<forall>i < length xs. f (xs ! i) = Inr (ys' ! i)"
    by simp_all
  show ?case using y ys ih by (auto simp: nth_Cons split: nat.splits)
qed

lemma py_index_in_range: "0 \<le> i \<Longrightarrow> i < int (length xs) \<Longrightarrow> py_index xs i = Inr (xs ! nat i)"
  by (simp add: py_index_def)

section \<open>Time-based and index-based masks\<close>


lemma length_set_slice_const [simp]: "length (set_slice_const xs lo hi v) = length xs"
  by (simp add: set_slice_const_def Let_def)

lemma nth_set_slice_const:
  "k < length xs \<Longrightarrow> set_slice_const xs lo hi v ! k =
     (if slice_bound (length xs) lo \<le> k \<and> k < slice_bound (length xs) hi then v else xs ! k)"
  by (simp add: set_slice_const_def Let_def)

lemma slice_bound_nonneg: "0 \<le> i \<Longrightarrow> slice_bound n i = min (nat i) n"
  by (simp add: slice_bound_def)

lemma mask_fold_length:
  "length (fold (\<lambda>ecl mask. set_slice_const mask (fst ecl) (snd ecl + 1) False) es m) = length m"
  by (induction es arbitrary: m) simp_all

lemma mask_fold_nth:
  assumes "\<forall>(i1, i2) \<in> set es. 0 \<le> i1 \<and> i1 \<le> i2 \<and> i2 < int (length m)" "k < length m"
  shows "fold (\<lambda>ecl mask. set_slice_const mask (fst ecl) (snd ecl + 1) False) es m ! k
          = (m ! k \<and> (\<forall>(i1, i2) \<in> set es. \<not> (i1 \<le> int k \<and> int k \<le> i2)))"
  using assms
proof (induction es arbitrary: m)
  case Nil
  then show ?case by simp
next
  case (Cons e es)
  obtain i1 i2 where e: "e = (i1, i2)" by (cases e)
  from Cons.prems e have b: "0 \<le> i1" "i1 \<le> i2" "i2 < int (length m)" by auto
  let ?m' = "set_slice_const m i1 (i2 + 1) False"
  have len: "length ?m' = length m" by simp
  have step: "?m' ! k = (m ! k \<and> \<not> (i1 \<le> int k \<and> int k \<le> i2))"
    using Cons.prems(2) b by (auto simp: nth_set_slice_const slice_bound_nonneg)
  have "fold (\<lambda>ecl mask. set_slice_const mask (fst ecl) (snd ecl + 1) False) es ?m' ! k
          = (?m' ! k \<and> (\<forall>(i1, i2) \<in> set es. \<not> (i1 \<le> int k \<and> int k \<le> i2)))"
    using Cons.prems by (intro Cons.IH) (auto simp: len)
  then show ?case using step e by auto
qed

lemma cut_fold_length:
  "length m = length tms \<Longrightarrow>
   length (fold (\<lambda>ecl mask. map2 (\<lambda>m t. m \<and> (t < fst ecl \<or> t > snd ecl)) mask tms) es m) = length tms"
  by (induction es arbitrary: m) simp_all

lemma cut_fold_nth:
  fixes tms :: "real list"
  defines "F \<equiv> \<lambda>ecl mask. map2 (\<lambda>m t. m \<and> (t < fst ecl \<or> t > snd ecl)) mask tms"
  assumes "length m = length tms" "k < length tms"
  shows "fold F es m ! k = (m ! k \<and> (\<forall>(a, b) \<in> set es. tms ! k < a \<or> tms ! k > b))"
  using assms(2,3)
proof (induction es arbitrary: m)
  case Nil
  then show ?case by simp
next
  case (Cons e es)
  have len: "length (F e m) = length tms" using Cons.prems by (simp add: F_def)
  have step: "F e m ! k = (m ! k \<and> (tms ! k < fst e \<or> tms ! k > snd e))"
    using Cons.prems by (simp add: F_def)
  have "fold F (e # es) m ! k = fold F es (F e m) ! k" by simp
  also have "\<dots> = (F e m ! k \<and> (\<forall>(a, b) \<in> set es. tms ! k < a \<or> tms ! k > b))"
    by (rule Cons.IH [OF len Cons.prems(2)])
  finally show ?case using step by (cases e) auto
qed

lemma strict_sorted_nth_less_iff:
  fixes xs :: "real list"
  assumes "sorted_wrt (<) xs" "i < length xs" "j < length xs"
  shows "xs ! i < xs ! j \<longleftrightarrow> i < j"
  using assms by (metis sorted_wrt_nth_less linorder_neqE_nat order_less_asym order_less_irrefl)

text \<open>
  C8. For strictly increasing times and index pairs \<open>(i1, i2)\<close> with \<open>0 \<le> i1 \<le> i2 < len(times)\<close>,
  \<open>cut_eclipses\<close> on the time pairs \<open>(times[i1], times[i2])\<close> and \<open>mask_eclipses\<close> on the
  index pairs return the same mask, and that mask is False exactly at the samples whose
  index lies in \<open>[i1, i2]\<close> (endpoints included) for some pair.
\<close>

theorem cut_mask:
  assumes "sorted_wrt (<) tms"
    and "\<forall>(i1, i2) \<in> set ecls. 0 \<le> i1 \<and> i1 \<le> i2 \<and> i2 < int (length tms)"
  shows "cut_eclipses tms (map (\<lambda>(i1, i2). (tms ! nat i1, tms ! nat i2)) ecls) = mask_eclipses tms ecls
       \<and> mask_eclipses tms ecls
           = map (\<lambda>k. \<forall>(i1, i2) \<in> set ecls. \<not> (i1 \<le> int k \<and> int k \<le> i2)) [0..<length tms]"
proof -
  let ?tp = "map (\<lambda>(i1, i2). (tms ! nat i1, tms ! nat i2)) ecls"
  let ?spec = "map (\<lambda>k. \<forall>(i1, i2) \<in> set ecls. \<not> (i1 \<le> int k \<and> int k \<le> i2)) [0..<length tms]"
  have m: "mask_eclipses tms ecls = ?spec"
  proof (rule nth_equalityI)
    show "length (mask_eclipses tms ecls) = length ?spec"
      by (simp add: mask_eclipses_def mask_fold_length)
  next
    fix k assume "k < length (mask_eclipses tms ecls)"
    then have k: "k < length tms" by (simp add: mask_eclipses_def mask_fold_length)
    show "mask_eclipses tms ecls ! k = ?spec ! k"
      unfolding mask_eclipses_def using assms(2) k
      by (subst mask_fold_nth) auto
  qed
  have c: "cut_eclipses tms ?tp = ?spec"
  proof (rule nth_equalityI)
    show "length (cut_eclipses tms ?tp) = length ?spec"
      by (simp add: cut_eclipses_def cut_fold_length)
  next
    fix k assume "k < length (cut_eclipses tms ?tp)"
    then have k: "k < length tms" by (simp add: cut_eclipses_def cut_fold_length)
    have eq: "(\<forall>(a, b) \<in> set ?tp. tms ! k < a \<or> tms ! k > b)
            = (\<forall>(i1, i2) \<in> set ecls. \<not> (i1 \<le> int k \<and> int k \<le> i2))"
    proof -
      have "\<And>i1 i2. (i1, i2) \<in> set ecls \<Longrightarrow>
              (tms ! k < tms ! nat i1 \<or> tms ! k > tms ! nat i2) = (\<not> (i1 \<le> int k \<and> int k \<le> i2))"
      proof -
        fix i1 i2 assume "(i1, i2) \<in> set ecls"
        with assms(2) have b: "0 \<le> i1" "i1 \<le> i2" "i2 < int (length tms)" by auto
        then have "nat i1 < length tms" "nat i2 < length tms" by auto
        then show "(tms ! k < tms ! nat i1 \<or> tms ! k > tms ! nat i2) = (\<not> (i1 \<le> int k \<and> int k \<le> i2))"
          using strict_sorted_nth_less_iff [OF assms(1)] k b by auto
      qed
      then show ?thesis by (auto simp: case_prod_beta) 
    qed
    show "cut_eclipses tms ?tp ! k = ?spec ! k"
      unfolding cut_eclipses_def using k eq
      by (subst cut_fold_nth) auto
  qed
  show ?thesis using m c by simp
qed

theorem cut_mask_witness:
  "sorted_wrt (<) [0, 1, 2, 4, 5 :: real]
   \<and> cut_eclipses [0, 1, 2, 4, 5] [(1, 2), (4, 4)] = [True, False, False, False, True]
   \<and> mask_eclipses [0, 1, 2, 4, 5 :: real] [(1, 2), (3, 3)] = [True, False, False, False, True]"
  using cut_mask [of "[0, 1, 2, 4, 5]" "[(1, 2), (3, 3)]"]
  by (simp add: mask_eclipses_def set_slice_const_def slice_bound_def)

section \<open>Phase folding\<close>

lemma py_fmod_one_range: "0 \<le> py_fmod x 1 \<and> py_fmod x 1 < 1"
  unfolding py_fmod_def by simp linarith

text \<open>
  C10. For a positive period, every phase returned by \<open>fold_time_series\<close> lies in
  the half-open interval from -0.5 (included) to 0.5 (excluded); a timestamp exactly
  half a period after the reference point is mapped to -0.5.
\<close>

theorem fold_time_series_range:
  assumes "0 < period"
  shows "\<exists>phases. fold_time_series tms period zero = Inr phases
           \<and> length phases = length tms
           \<and> (\<forall>p \<in> set phases. - (1/2) \<le> p \<and> p < 1/2)
           \<and> fold_time_series [zero + period / 2] period zero = Inr [- (1/2)]"
proof -
  have half: "py_fmod ((zero + period / 2 - zero) / period + 0.5) 1 = 0"
    using assms by (simp add: py_fmod_def)
  have rng: "\<And>x. - (1/2) \<le> py_fmod x 1 - 0.5 \<and> py_fmod x 1 - 0.5 < 1/2"
    using py_fmod_one_range by (simp add: field_simps)
  show ?thesis
    using assms half rng by (auto simp: fold_time_series_def)
qed

theorem fold_time_series_range_witness:
  "(0::real) < 2 \<and> fold_time_series [0, 1, 3, 7/2] 2 1 = Inr [- (1/2), 0, 0, 1/4]
     \<and> fold_time_series [1 + 2 / 2] 2 1 = Inr [- (1/2)]"
  using fold_time_series_range [of 2 "[0, 1, 3, 7/2]" 1]
  by (simp add: fold_time_series_def py_fmod_def)

section \<open>Smoothing a constant array\<close>


lemma replicate_update_same [simp]: "(replicate n c)[k := c] = replicate n c"
  by (induction n arbitrary: k) (auto split: nat.splits simp: list_update_code)

lemma replicate_prefix_update:
  "k < n \<Longrightarrow> (replicate k c @ replicate (n - k) z)[k := c] = replicate (Suc k) c @ replicate (n - Suc k) z"
proof (induction k arbitrary: n)
  case 0
  then show ?case by (cases n) simp_all
next
  case (Suc k)
  then obtain n' where n: "n = Suc n'" by (cases n) simp_all
  with Suc.prems have "k < n'" by simp
  from Suc.IH [OF this] show ?case using n by simp
qed

lemma smooth_const_loop1:
  fixes c :: real
  assumes "k \<le> n"
  shows "smooth_loop1 (replicate n c) k (0, replicate n 0)
         = (real k * c, replicate k c @ replicate (n - k) 0)"
  using assms unfolding smooth_loop1_def
proof (induction k)
  case 0
  then show ?case by simp
next
  case (Suc k)
  then have k: "k < n" by simp
  have e: "(1 + real k) * c = real k * c + c" by (simp add: algebra_simps)
  have d: "(real k * c + c) / (1 + real k) = c"
  proof -
    have "1 + real k \<noteq> 0" by (metis of_nat_Suc of_nat_neq_0)
    then show ?thesis using e by (metis nonzero_mult_div_cancel_left)
  qed
  show ?case using Suc.IH k d e
    by (simp add: replicate_prefix_update Let_def del: replicate_Suc)
qed

lemma smooth_const_loop2_aux:
  fixes c :: real
  assumes "0 < w" "w \<le> m" "m \<le> n"
  shows "fold (\<lambda>i (s, out). let s' = s - replicate n c ! (i - w) + replicate n c ! i
                             in (s', out[i := s' / real w]))
           [w..<m] (real w * c, replicate w c @ replicate (n - w) 0)
         = (real w * c, replicate m c @ replicate (n - m) 0)"
  using assms(2,3)
proof (induction m)
  case 0
  then show ?case using assms(1) by simp
next
  case (Suc m)
  show ?case
  proof (cases "w = Suc m")
    case True
    then show ?thesis by simp
  next
    case False
    with Suc.prems have wm: "w \<le> m" "m < n" by simp_all
    then have "m - w < n" by simp
    then show ?thesis using Suc.IH wm assms(1)
      by (simp add: replicate_prefix_update del: replicate_Suc)
  qed
qed

lemma smooth_const_loop2:
  fixes c :: real
  assumes "0 < w" "w \<le> n"
  shows "smooth_loop2 (replicate n c) w (real w * c, replicate w c @ replicate (n - w) 0)
         = (real w * c, replicate n c)"
  unfolding smooth_loop2_def using smooth_const_loop2_aux [OF assms(1) assms(2), of n c] by simp

lemma smooth_const_loop3_aux:
  fixes c :: real
  assumes "i \<le> 0" "- int n \<le> i - int n2 - 1"
  shows "fold (\<lambda>i (s, out). let s' = s - py_nth (replicate n c) (i - int n2 - 1)
                              in (s', py_update out i (s' / real_of_int (- i + int n2))))
           [i .. -1] (real_of_int (int n2 + 1 - i) * c, replicate n c)
         = (real_of_int (int n2 + 1) * c, replicate n c)"
  using assms
proof (induction "nat (- i)" arbitrary: i)
  case 0
  then have "i = 0" by simp
  then show ?case by simp
next
  case (Suc k)
  then have i: "i < 0" "i \<le> -1" by simp_all
  have rec: "[i .. -1] = i # [i + 1 .. -1]" using i by (simp add: upto_rec1)
  have idx: "nat (i - int n2 - 1 + int n) < n" using Suc.prems i by auto
  have rd: "py_nth (replicate n c) (i - int n2 - 1) = c"
    using idx i by (simp add: py_nth_def)
  have nz: "real_of_int (- i + int n2) \<noteq> 0" using i by simp 
  have dv: "(real_of_int (int n2 + 1 - i) * c - c) / real_of_int (- i + int n2) = c"
  proof -
    have "real_of_int (int n2 + 1 - i) * c - c = real_of_int (- i + int n2) * c"
      by (simp add: algebra_simps)
    then show ?thesis using nz by simp
  qed
  have s': "real_of_int (int n2 + 1 - i) * c - c = real_of_int (int n2 + 1 - (i + 1)) * c"
    by (simp add: algebra_simps)
  have ih: "fold (\<lambda>i (s, out). let s' = s - py_nth (replicate n c) (i - int n2 - 1)
                              in (s', py_update out i (s' / real_of_int (- i + int n2))))
           [i + 1 .. -1] (real_of_int (int n2 + 1 - (i + 1)) * c, replicate n c)
         = (real_of_int (int n2 + 1) * c, replicate n c)"
    using Suc.hyps(2) Suc.prems i by (intro Suc.hyps(1)) auto
  show ?case
    unfolding rec fold_Cons comp_apply
    using ih dv s' rd by (simp add: py_update_def Let_def del: of_int_add of_int_diff of_int_minus)
qed


lemma smooth_const_loop3:
  fixes c :: real
  assumes "2 * n_2 + n_3 \<le> n" "1 \<le> n_2 + n_3"
  shows "smooth_loop3 (replicate n c) n_2 n_3 (real (2 * n_2 + n_3) * c, replicate n c)
         = (real (n_2 + 1) * c, replicate n c)"
proof -
  have s3: "real (2 * n_2 + n_3) * c = real_of_int (int n_2 + 1 - (- int n_2 - int n_3 + 1)) * c"
    by simp
  have "fold (\<lambda>i (s, out). let s' = s - py_nth (replicate n c) (i - int n_2 - 1)
                              in (s', py_update out i (s' / real_of_int (- i + int n_2))))
           [- int n_2 - int n_3 + 1 .. -1]
           (real_of_int (int n_2 + 1 - (- int n_2 - int n_3 + 1)) * c, replicate n c)
         = (real_of_int (int n_2 + 1) * c, replicate n c)"
    using assms by (intro smooth_const_loop3_aux) auto
  then show ?thesis unfolding smooth_loop3_def s3 by simp
qed

lemma smooth_const_shift:
  assumes "h \<le> n" "2 \<le> h"
  shows "set_slice_to (replicate n c) (- int h + 1) (slice_from (replicate n c) (int h - 1))
           = Inr (replicate n c)"
proof -
  have a: "slice_bound n (int h - 1) = h - 1" using assms by (simp add: slice_bound_def)
  have b: "slice_bound n (- int h + 1) = n - (h - 1)"
    using assms by (auto simp: slice_bound_def)
  have "replicate (n - (h - 1)) c @ replicate (n - (n - (h - 1))) c = replicate n c"
    by (simp add: replicate_add [symmetric])
  then show ?thesis using a b by (simp add: set_slice_to_def slice_from_def)
qed

text \<open>
  C7 (as amended). For every constant array and every kernel width between 2 and the
  length of the array, \<open>smooth\<close> returns the array unchanged: every entry, also those
  of the boundary windows that average over fewer points, is the constant.
\<close>

theorem smooth_constant:
  assumes "2 \<le> n_kernel" "n_kernel \<le> L"
  shows "smooth (replicate L c) n_kernel None = Inr (replicate L c)"
proof -
  define n_2 where "n_2 = n_kernel div 2"
  define n_3 where "n_3 = n_kernel mod 2"
  have n: "n_kernel = 2 * n_2 + n_3" by (simp add: n_2_def n_3_def)
  have st1: "smooth_loop1 (replicate L c) n_kernel (0, replicate L 0)
             = (real n_kernel * c, replicate n_kernel c @ replicate (L - n_kernel) 0)"
    using assms by (intro smooth_const_loop1) simp
  have st2: "smooth_loop2 (replicate L c) n_kernel
               (real n_kernel * c, replicate n_kernel c @ replicate (L - n_kernel) 0)
             = (real n_kernel * c, replicate L c)"
    using assms by (intro smooth_const_loop2) simp_all
  have sh: "(if n_2 > 1 \<or> n_3 > 0
             then set_slice_to (replicate L c) (- int n_2 - int n_3 + 1)
                    (slice_from (replicate L c) (int n_2 + int n_3 - 1))
             else Inr (replicate L c)) = Inr (replicate L c)"
  proof (cases "n_2 > 1 \<or> n_3 > 0")
    case True
    with assms n have "n_2 + n_3 \<le> L" "2 \<le> n_2 + n_3" by linarith+
    from smooth_const_shift [OF this, of c] True show ?thesis by (simp add: algebra_simps)
  next
    case False
    then show ?thesis by simp
  qed
  have st3: "smooth_loop3 (replicate L c) n_2 n_3 (real n_kernel * c, replicate L c)
             = (real (n_2 + 1) * c, replicate L c)"
    unfolding n using assms n by (intro smooth_const_loop3) linarith+
  have "smooth (replicate L c) n_kernel None
        = bind_res (if n_2 > 1 \<or> n_3 > 0
                        then set_slice_to (replicate L c) (- int n_2 - int n_3 + 1)
                               (slice_from (replicate L c) (int n_2 + int n_3 - 1))
                        else Inr (replicate L c))
            (\<lambda>shifted. Inr (snd (smooth_loop3 (replicate L c) n_2 n_3 (real n_kernel * c, shifted))))"
    unfolding smooth_def Let_def n_2_def [symmetric] n_3_def [symmetric]
    using assms by (simp add: st1 st2)
  then show ?thesis unfolding sh by (simp add: st3)
qed

theorem smooth_constant_witness:
  "(2::nat) \<le> 3 \<and> (3::nat) \<le> 5 \<and> smooth [7, 7, 7, 7, 7] 3 None = Inr [7, 7, 7, 7, 7]"
  using smooth_constant [of 3 5 7] by (simp add: numeral_eq_Suc)

text \<open>
  C7 as stated includes the kernel width 1. There \<open>-n_2 - n_3 + 1\<close> is 0, the target
  slice \<open>a_smooth[:0]\<close> is empty while the source slice \<open>a_smooth[0:]\<close> is the whole array,
  and the assignment raises for every array of two or more elements.
\<close>

theorem smooth_kernel_one_raises:
  "smooth [1, 1] 1 None = Inl ValueError"
  by (simp add: smooth_def smooth_loop1_def smooth_loop2_def set_slice_to_def slice_from_def slice_bound_def)

section \<open>Derivatives without smoothing\<close>


lemma length_np_diff [simp]: "length (np_diff a) = length a - 1"
  by (simp add: np_diff_def)

lemma nth_np_diff: "i + 1 < length a \<Longrightarrow> np_diff a ! i = a ! (i + 1) - a ! i"
  by (simp add: np_diff_def nth_tl nth_butlast)

lemma diff_ext_spec:
  assumes "2 \<le> length a"
  shows "diff_ext a = Inr (spec_forward_diff a)"
proof -
  have "np_diff a @ [py_nth a (-1) - py_nth a (-2)] = spec_forward_diff a"
  proof (rule nth_equalityI)
    show "length (np_diff a @ [py_nth a (-1) - py_nth a (-2)]) = length (spec_forward_diff a)"
      using assms by (simp add: spec_forward_diff_def)
  next
    fix i assume "i < length (np_diff a @ [py_nth a (-1) - py_nth a (-2)])"
    then have i: "i < length a" using assms by simp
    have l1: "nat (int (length a) - 1) = length a - 1" "nat (int (length a) - 2) = length a - 2"
      by simp_all
    show "(np_diff a @ [py_nth a (-1) - py_nth a (-2)]) ! i = spec_forward_diff a ! i"
    proof (cases "i + 1 < length a")
      case True
      then have "i < length (np_diff a)" by simp
      then have "(np_diff a @ [py_nth a (-1) - py_nth a (-2)]) ! i = np_diff a ! i"
        by (simp only: nth_append if_True)
      then show ?thesis using i True by (simp add: nth_np_diff spec_forward_diff_def)
    next
      case False
      with i have ie: "i = length (np_diff a)" by simp
      have "(np_diff a @ [py_nth a (-1) - py_nth a (-2)]) ! i = py_nth a (-1) - py_nth a (-2)"
        unfolding ie by (rule nth_append_length)
      then show ?thesis using i False assms l1
        by (simp add: spec_forward_diff_def py_nth_def)
    qed
  qed
  then show ?thesis using assms by (simp add: diff_ext_def)
qed

lemma diff_t_spec:
  assumes "2 \<le> length tms"
  shows "np_diff (tms @ [2 * py_nth tms (-1) - py_nth tms (-2)]) = spec_time_deltas tms"
    (is "np_diff (tms @ [?x]) = _")
proof (rule nth_equalityI)
  show "length (np_diff (tms @ [2 * py_nth tms (-1) - py_nth tms (-2)])) = length (spec_time_deltas tms)"
    by (simp add: spec_time_deltas_def)
next
  fix i assume "i < length (np_diff (tms @ [2 * py_nth tms (-1) - py_nth tms (-2)]))"
  then have i: "i < length tms" by simp
  have l1: "nat (int (length tms) - 1) = length tms - 1" "nat (int (length tms) - 2) = length tms - 2"
    by simp_all
  have d: "np_diff (tms @ [?x]) ! i = (tms @ [?x]) ! (i + 1) - (tms @ [?x]) ! i"
    using i by (intro nth_np_diff) simp
  have lo: "(tms @ [?x]) ! i = tms ! i" using i by (simp add: nth_append)
  show "np_diff (tms @ [?x]) ! i = spec_time_deltas tms ! i"
  proof (cases "i + 1 < length tms")
    case True
    then have "(tms @ [?x]) ! (i + 1) = tms ! (i + 1)" by (simp add: nth_append)
    then show ?thesis using d lo i True by (simp add: spec_time_deltas_def)
  next
    case False
    with i have ie: "i + 1 = length tms" by simp
    have "(tms @ [?x]) ! (i + 1) = ?x" unfolding ie by (rule nth_append_length)
    moreover have "i = length tms - 1" using ie by simp
    ultimately show ?thesis using d lo i False assms l1
      by (simp add: spec_time_deltas_def py_nth_def)
  qed
qed

lemma map_res_all_Inr:
  assumes "\<forall>x \<in> set xs. f x = Inr (g x)"
  shows "map_res f xs = Inr (map g xs)"
  using assms by (induction xs) simp_all

lemma div_arrays_nonzero:
  assumes "length xs = length ys" "\<forall>y \<in> set ys. y \<noteq> 0"
  shows "div_arrays xs ys = Inr (map2 (\<lambda>d dt. d / dt) xs ys)"
proof -
  have "\<forall>p \<in> set (zip xs ys). (\<lambda>(x, y). array_div x y) p = Inr ((\<lambda>(d, dt). d / dt) p)"
    using assms(2) by (auto simp: array_div_def dest: set_zip_rightD)
  from map_res_all_Inr [OF this] show ?thesis using assms(1) by (simp add: div_arrays_def)
qed

lemma spec_time_deltas_pos:
  assumes "sorted_wrt (<) tms" "2 \<le> length tms"
  shows "\<forall>y \<in> set (spec_time_deltas tms). 0 < y"
proof -
  have "\<And>i. i < length tms \<Longrightarrow> 0 < spec_time_deltas tms ! i"
  proof -
    fix i assume i: "i < length tms"
    show "0 < spec_time_deltas tms ! i"
    proof (cases "i + 1 < length tms")
      case True
      then have "tms ! i < tms ! (i + 1)" by (intro sorted_wrt_nth_less [OF assms(1)]) simp_all
      then show ?thesis using True i by (simp add: spec_time_deltas_def)
    next
      case False
      have "tms ! (length tms - 2) < tms ! (length tms - 1)"
        using assms(2) by (intro sorted_wrt_nth_less [OF assms(1)]) auto
      then show ?thesis using False i by (simp add: spec_time_deltas_def)
    qed
  qed
  moreover have "length (spec_time_deltas tms) = length tms" by (simp add: spec_time_deltas_def)
  ultimately show ?thesis by (metis in_set_conv_nth)
qed

lemma length_spec_derivative:
  "length a = length tms \<Longrightarrow> length (spec_derivative a tms) = length tms"
  by (simp add: spec_derivative_def spec_forward_diff_def spec_time_deltas_def)

lemma derivative_step:
  assumes "sorted_wrt (<) tms" "2 \<le> length tms" "length a = length tms"
  shows "bind_res (diff_ext a) (\<lambda>d. bind_res (div_arrays d (spec_time_deltas tms)) f)
           = f (spec_derivative a tms)"
proof -
  have nz: "\<forall>y \<in> set (spec_time_deltas tms). y \<noteq> 0"
    using spec_time_deltas_pos [OF assms(1,2)] by auto
  have len: "length (spec_forward_diff a) = length (spec_time_deltas tms)"
    using assms(3) by (simp add: spec_forward_diff_def spec_time_deltas_def)
  show ?thesis
    using assms diff_ext_spec [of a] div_arrays_nonzero [OF len nz]
    by (simp add: spec_derivative_def)
qed

text \<open>
  C3. For strictly increasing times (two samples or more) and a signal of the same length,
  \<open>prepare_derivatives\<close> with \<open>n_kernel = 1\<close> returns the signal itself as \<open>signal_s\<close>, the
  same stack as raw and as smoothed derivatives, each derivative being the forward
  difference of the previous curve (last difference repeated) divided elementwise by the
  time deltas (the trailing delta taken to the extrapolated time \<open>2 * times[-1] - times[-2]\<close>),
  and the fourth curve being minus the product of the first and third derivatives.
\<close>

theorem prepare_derivatives_unsmoothed:
  assumes "sorted_wrt (<) tms" "2 \<le> length tms" "length signal = length tms"
  shows "\<exists>deriv_1 deriv_2 deriv_3 deriv_13.
           prepare_derivatives tms signal 1 no_gaps
             = Inr (signal, [deriv_1, deriv_2, deriv_3, deriv_13], [deriv_1, deriv_2, deriv_3, deriv_13])
         \<and> deriv_1 = spec_derivative signal tms
         \<and> deriv_2 = spec_derivative deriv_1 tms
         \<and> deriv_3 = spec_derivative deriv_2 tms
         \<and> deriv_13 = map2 (\<lambda>x y. - (x * y)) deriv_1 deriv_3"
proof -
  let ?d1 = "spec_derivative signal tms"
  let ?d2 = "spec_derivative ?d1 tms"
  let ?d3 = "spec_derivative ?d2 tms"
  have l1: "length ?d1 = length tms" using assms(3) by (rule length_spec_derivative)
  have l2: "length ?d2 = length tms" using l1 by (rule length_spec_derivative)
  have m: "(\<lambda>x y :: real. - x * y) = (\<lambda>x y. - (x * y))" by simp
  show ?thesis
    unfolding prepare_derivatives_def Let_def diff_t_spec [OF assms(2)] m
    using assms(2)
    by (simp add: derivative_step [OF assms(1,2) assms(3)] derivative_step [OF assms(1,2) l1]
          derivative_step [OF assms(1,2) l2])
qed

theorem prepare_derivatives_unsmoothed_witness:
  "sorted_wrt (<) [0, 1, 3 :: real] \<and>
   prepare_derivatives [0, 1, 3] [1, 2, 6] 1 False
     = Inr ([1, 2, 6], [[1, 2, 2], [1, 0, 0], [-1, 0, 0], [1, 0, 0]],
                       [[1, 2, 2], [1, 0, 0], [-1, 0, 0], [1, 0, 0]])"
  using prepare_derivatives_unsmoothed [of "[0, 1, 3]" "[1, 2, 6]" False]
  by (simp add: spec_derivative_def spec_forward_diff_def spec_time_deltas_def upt_rec)

section \<open>Repeating points and removing the copies\<close>


subsection \<open>Selection by a mask\<close>

lemma select_Nil [simp]: "select [] m = []" "select xs [] = []"
  by (simp_all add: select_def)

lemma select_Cons [simp]: "select (x # xs) (b # m) = (if b then x # select xs m else select xs m)"
  by (simp add: select_def)

lemma select_append:
  "length xs = length m \<Longrightarrow> select (xs @ ys) (m @ m') = select xs m @ select ys m'"
  by (simp add: select_def)

lemma select_all_False [simp]: "select xs (replicate k False) = []"
  by (auto simp: select_def filter_empty_conv dest: set_zip_rightD)

lemma select_map: "select (map f xs) m = map f (select xs m)"
  by (induction xs arbitrary: m) (simp, case_tac m, simp_all)

lemma select_map2:
  "length xs = length ys \<Longrightarrow>
   select (map2 f xs ys) m = map2 f (select xs m) (select ys m)"
proof (induction xs ys arbitrary: m rule: list_induct2)
  case Nil
  then show ?case by simp
next
  case (Cons x xs y ys)
  then show ?case by (cases m) simp_all
qed

lemma set_select_subset: "set (select xs m) \<subseteq> set xs"
  by (auto simp: select_def dest: set_zip_leftD)


lemma count_true_simps [simp]:
  "count_true [] = 0" "count_true (b # m) = (if b then Suc (count_true m) else count_true m)"
  by (simp_all add: count_true_def)

lemma length_select: "length xs = length m \<Longrightarrow> length (select xs m) = count_true m"
  by (induction xs m rule: list_induct2) simp_all

subsection \<open>Masked assignment\<close>

lemma length_put_mask [simp]: "length (put_mask xs m vs) = length xs"
  by (induction xs m vs rule: put_mask.induct) (auto split: list.splits)

lemma select_put_mask:
  "length xs = length m \<Longrightarrow> length vs = count_true m \<Longrightarrow> select (put_mask xs m vs) m = vs"
proof (induction xs m arbitrary: vs rule: list_induct2)
  case Nil
  then show ?case by simp
next
  case (Cons x xs b m)
  then show ?case by (cases vs) (auto split: if_splits)
qed

lemma put_mask_select:
  "length xs = length m \<Longrightarrow> length ys = length m \<Longrightarrow>
   put_mask xs m (select ys m) = map2 (\<lambda>x (b, y). if b then y else x) xs (zip m ys)"
proof (induction xs m arbitrary: ys rule: list_induct2)
  case Nil
  then show ?case by simp
next
  case (Cons x xs b m)
  then obtain y ys' where ys: "ys = y # ys'" by (cases ys) simp_all
  with Cons show ?case by simp
qed

text \<open>Every masked assignment is the selection of some full-length array.\<close>

lemma put_mask_as_select:
  assumes "length xs = length m" "length vs = count_true m"
  shows "\<exists>ys. length ys = length m \<and> select ys m = vs \<and> put_mask xs m vs = ys
               \<and> (\<forall>i < length m. \<not> m ! i \<longrightarrow> ys ! i = xs ! i)"
proof -
  let ?ys = "put_mask xs m vs"
  have "\<forall>i < length m. \<not> m ! i \<longrightarrow> ?ys ! i = xs ! i"
    using assms
  proof (induction xs m arbitrary: vs rule: list_induct2)
    case Nil
    then show ?case by simp
  next
    case (Cons x xs b m)
    show ?case
    proof (cases b)
      case True
      with Cons.prems obtain v vs' where vs: "vs = v # vs'" by (cases vs) simp_all
      with True Cons show ?thesis by (auto simp: nth_Cons split: nat.splits)
    next
      case False
      with Cons show ?thesis by (auto simp: nth_Cons split: nat.splits)
    qed
  qed
  then show ?thesis using assms by (auto simp: select_put_mask)
qed

subsection \<open>Repetition\<close>

lemma np_repeat_simps [simp]:
  "np_repeat [] rs = []" "np_repeat xs [] = []"
  "np_repeat (x # xs) (r # rs) = replicate r x @ np_repeat xs rs"
  by (simp_all add: np_repeat_def)

lemma length_np_repeat:
  "length xs = length rs \<Longrightarrow> length (np_repeat xs rs) = sum_list rs"
  by (induction xs rs rule: list_induct2) simp_all




subsection \<open>Positions in a repeated array\<close>


lemma block_start_0 [simp]: "block_start rs 0 = 0"
  by (simp add: block_start_def)

lemma block_start_Suc_Cons [simp]: "block_start (r # rs) (Suc i) = r + block_start rs i"
  by (simp add: block_start_def)

lemma block_start_Suc:
  "i < length rs \<Longrightarrow> block_start rs (Suc i) = block_start rs i + rs ! i"
  by (simp add: block_start_def take_Suc_conv_app_nth)

lemma block_start_mono: "i \<le> j \<Longrightarrow> block_start rs i \<le> block_start rs j"
proof (induction rs arbitrary: i j)
  case Nil
  then show ?case by (simp add: block_start_def)
next
  case (Cons r rs)
  show ?case
  proof (cases i)
    case 0
    then show ?thesis by simp
  next
    case (Suc i')
    with Cons.prems obtain j' where "j = Suc j'" "i' \<le> j'" by (cases j) simp_all
    with Suc Cons.IH [of i' j'] show ?thesis by simp
  qed
qed

lemma block_start_length: "block_start rs (length rs) = sum_list rs"
  by (simp add: block_start_def)

lemma block_end_le:
  assumes "i < length rs"
  shows "block_start rs i + rs ! i \<le> sum_list rs"
proof -
  have "block_start rs (Suc i) \<le> block_start rs (length rs)"
    using assms by (intro block_start_mono) simp
  then show ?thesis using assms by (simp add: block_start_Suc block_start_length)
qed

lemma block_unique:
  assumes "i < length rs" "j < length rs" "a < rs ! i" "b < rs ! j"
    and "block_start rs i + a = block_start rs j + b"
  shows "i = j \<and> a = b"
proof -
  have False if "i' < j'" "i' < length rs" "j' < length rs" "a' < rs ! i'"
    "block_start rs i' + a' = block_start rs j' + b'" for i' j' a' b'
  proof -
    have "block_start rs (Suc i') \<le> block_start rs j'"
      using that(1) by (intro block_start_mono) simp
    then show False using that by (simp add: block_start_Suc)
  qed
  from this [of i j a b] this [of j i b a] assms have "i = j"
    by (metis linorder_neqE_nat)
  then show ?thesis using assms by simp
qed

lemma cumsum_from_nth:
  "i < length rs \<Longrightarrow> cumsum_from acc rs ! i = acc + block_start rs (Suc i)"
proof (induction rs arbitrary: acc i)
  case Nil
  then show ?case by simp
next
  case (Cons r rs)
  then show ?case by (cases i) (simp_all add: block_start_def)
qed

lemma length_cumsum_from [simp]: "length (cumsum_from acc rs) = length rs"
  by (induction rs arbitrary: acc) simp_all

lemma cumsum_nth: "i < length rs \<Longrightarrow> cumsum rs ! i = block_start rs i + rs ! i"
  by (simp add: cumsum_def cumsum_from_nth block_start_Suc)

lemma np_repeat_nth:
  "length xs = length rs \<Longrightarrow> i < length rs \<Longrightarrow> a < rs ! i \<Longrightarrow>
   np_repeat xs rs ! (block_start rs i + a) = xs ! i"
proof (induction xs rs arbitrary: i rule: list_induct2)
  case Nil
  then show ?case by simp
next
  case (Cons x xs r rs)
  show ?case
  proof (cases i)
    case 0
    with Cons.prems show ?thesis by (simp add: nth_append)
  next
    case (Suc i')
    with Cons.prems have "np_repeat xs rs ! (block_start rs i' + a) = xs ! i'"
      by (intro Cons.IH) simp_all
    then show ?thesis using Suc by (simp add: nth_append add.assoc)
  qed
qed

lemma select_one:
  assumes "length m = r" "k < r" "\<forall>a < r. m ! a = (a = k)"
  shows "select (replicate r x) m = [x]"
proof -
  have m: "m = replicate k False @ [True] @ replicate (r - k - 1) False"
  proof (rule nth_equalityI)
    show "length m = length (replicate k False @ [True] @ replicate (r - k - 1) False)"
      using assms by simp
  next
    fix a assume "a < length m"
    then have a: "a < r" using assms by simp
    show "m ! a = (replicate k False @ [True] @ replicate (r - k - 1) False) ! a"
      using a assms(2,3) by (auto simp: nth_append nth_Cons split: nat.splits)
  qed
  have x: "replicate r x = replicate k x @ [x] @ replicate (r - k - 1) x"
  proof -
    have "r = k + Suc (r - Suc k)" using assms(2) by simp
    then have "replicate r x = replicate k x @ replicate (Suc (r - Suc k)) x"
      by (metis replicate_add)
    then show ?thesis by simp
  qed
  have "select (replicate k x @ [x] @ replicate (r - k - 1) x)
          (replicate k False @ [True] @ replicate (r - k - 1) False) = [x]"
    by (subst select_append, simp, subst select_append, simp, simp)
  then show ?thesis using m x by simp
qed

lemma select_repeat_keep:
  assumes "length xs = length rs" "length m = sum_list rs"
    and "\<forall>i < length rs. keep i < rs ! i
           \<and> (\<forall>a < rs ! i. m ! (block_start rs i + a) = (a = keep i))"
  shows "select (np_repeat xs rs) m = xs"
  using assms
proof (induction xs rs arbitrary: m keep rule: list_induct2)
  case Nil
  then show ?case by simp
next
  case (Cons x xs r rs)
  define m1 where "m1 = take r m"
  define m2 where "m2 = drop r m"
  have m: "m = m1 @ m2" by (simp add: m1_def m2_def)
  have l1: "length m1 = r" using Cons.prems(1) by (simp add: m1_def)
  have l2: "length m2 = sum_list rs" using Cons.prems(1) by (simp add: m2_def)
  have "0 < length (r # rs)" by simp
  with Cons.prems(2) have "keep 0 < (r # rs) ! 0
           \<and> (\<forall>a < (r # rs) ! 0. m ! (block_start (r # rs) 0 + a) = (a = keep 0))"
    by blast
  then have k0: "keep 0 < r" and b0: "\<forall>a < r. m ! a = (a = keep 0)"
    by simp_all
  have "\<forall>a < r. m1 ! a = (a = keep 0)" using b0 by (simp add: m1_def)
  then have s1: "select (replicate r x) m1 = [x]" using l1 k0 by (rule select_one [rotated 2])
  have rest: "\<forall>i < length rs. (keep \<circ> Suc) i < rs ! i
           \<and> (\<forall>a < rs ! i. m2 ! (block_start rs i + a) = (a = (keep \<circ> Suc) i))"
  proof (intro allI impI)
    fix i assume i: "i < length rs"
    have "Suc i < length (r # rs)" using i by simp
    with Cons.prems(2) have "keep (Suc i) < (r # rs) ! Suc i
           \<and> (\<forall>a < (r # rs) ! Suc i. m ! (block_start (r # rs) (Suc i) + a) = (a = keep (Suc i)))"
      by blast
    then have k: "keep (Suc i) < rs ! i"
      and b: "\<forall>a < rs ! i. m ! (r + block_start rs i + a) = (a = keep (Suc i))"
      by simp_all
    have "m2 ! (block_start rs i + a) = m ! (r + block_start rs i + a)" if "a < rs ! i" for a
    proof -
      have "block_start rs i + rs ! i \<le> sum_list rs" using i by (rule block_end_le)
      then have "r + (block_start rs i + a) \<le> length m" using that Cons.prems(1) by simp
      then show ?thesis by (simp add: m2_def add.assoc)
    qed
    then show "(keep \<circ> Suc) i < rs ! i
           \<and> (\<forall>a < rs ! i. m2 ! (block_start rs i + a) = (a = (keep \<circ> Suc) i))"
      using k b by simp
  qed
  have s2: "select (np_repeat xs rs) m2 = xs" using l2 rest by (rule Cons.IH)
  have "select (np_repeat (x # xs) (r # rs)) m = select (replicate r x) m1 @ select (np_repeat xs rs) m2"
    unfolding m using l1 by (simp add: select_append)
  then show ?case using s1 s2 by simp
qed




subsection \<open>The gap points\<close>

lemma gap_chain:
  "\<forall>k < length (select ss (map2 (\<or>) ss (p # butlast ss))).
      \<not> select ss (map2 (\<or>) ss (p # butlast ss)) ! k \<longrightarrow>
      (if k = 0 then p else select ss (map2 (\<or>) ss (p # butlast ss)) ! (k - 1))"
proof (induction ss arbitrary: p)
  case Nil
  then show ?case by simp
next
  case (Cons s ss)
  define rest where "rest = select ss (map2 (\<or>) ss (s # butlast ss))"
  have ih: "\<forall>k < length rest. \<not> rest ! k \<longrightarrow> (if k = 0 then s else rest ! (k - 1))"
    unfolding rest_def by (rule Cons.IH)
  have m: "map2 (\<or>) (s # ss) (p # butlast (s # ss)) = (s \<or> p) # map2 (\<or>) ss (s # butlast ss)"
    by (cases ss) simp_all
  have sel: "select (s # ss) (map2 (\<or>) (s # ss) (p # butlast (s # ss)))
             = (if s \<or> p then s # rest else rest)"
    unfolding m rest_def by simp
  show ?case
  proof (cases "s \<or> p")
    case True
    have "\<not> (s # rest) ! k \<longrightarrow> (if k = 0 then p else (s # rest) ! (k - 1))"
      if "k < length (s # rest)" for k
    proof (cases k)
      case 0
      then show ?thesis using True by auto
    next
      case (Suc k')
      with that have "k' < length rest" by simp
      with ih have "\<not> rest ! k' \<longrightarrow> (if k' = 0 then s else rest ! (k' - 1))" by blast
      then show ?thesis using Suc by (cases k') auto
    qed
    then have "\<forall>k < length (s # rest).
        \<not> (s # rest) ! k \<longrightarrow> (if k = 0 then p else (s # rest) ! (k - 1))" by blast
    then show ?thesis unfolding sel by (simp only: True if_True)
  next
    case False
    then have sp: "s = p" by auto
    have "\<forall>k < length rest. \<not> rest ! k \<longrightarrow> (if k = 0 then p else rest ! (k - 1))"
      using ih unfolding sp .
    then show ?thesis unfolding sel by (simp only: False if_False)
  qed
qed

lemma gaps_both_sides:
  "ss \<noteq> [] \<Longrightarrow> hd ss # map2 (\<or>) (tl ss) (butlast ss) = map2 (\<or>) ss (False # butlast ss)"
  by (cases ss) simp_all

lemma np_diff_pos:
  assumes "sorted_wrt (<) tms"
  shows "\<forall>d \<in> set (np_diff tms). 0 < d"
proof -
  have "0 < np_diff tms ! i" if "i < length (np_diff tms)" for i
  proof -
    have i: "i + 1 < length tms" using that by (simp add: np_diff_def)
    then have "tms ! i < tms ! (i + 1)" by (intro sorted_wrt_nth_less [OF assms]) simp_all
    then show ?thesis using i by (simp add: np_diff_def nth_tl nth_butlast)
  qed
  then show ?thesis by (metis in_set_conv_nth)
qed

lemma mark_gaps_shape:
  assumes "sorted_wrt (<) tms" "2 \<le> length tms"
  shows "\<exists>gaps W. mark_gaps tms = Inr (gaps, select W gaps)
           \<and> length gaps = length tms \<and> length W = length tms
           \<and> (\<forall>w \<in> set W. w = 1 \<or> 4 \<le> w)
           \<and> (\<forall>k < length (select (map (\<lambda>w. w \<noteq> 1) W) gaps).
                 \<not> select (map (\<lambda>w. w \<noteq> 1) W) gaps ! k \<longrightarrow>
                 0 < k \<and> select (map (\<lambda>w. w \<noteq> 1) W) gaps ! (k - 1))"
proof -
  define diff where "diff = np_diff tms"
  define min_d where "min_d = Min (set diff)"
  define gap_width0 where "gap_width0 = map (\<lambda>d. d / min_d) diff"
  define gaps0 where "gaps0 = map (\<lambda>w. w > 4) gap_width0"
  define gap_width1 where "gap_width1 = map2 (\<lambda>w g. if g then w else 1) gap_width0 gaps0"
  define gaps1 where "gaps1 = gaps0 @ [False]"
  define gaps where "gaps = hd gaps1 # map2 (\<or>) (tl gaps1) (butlast gaps1)"
  define W where "W = map (\<lambda>w. nat \<lfloor>w\<rfloor>) gap_width1 @ [1]"
  have ld: "length diff = length tms - 1" by (simp add: diff_def np_diff_def)
  then have ne: "diff \<noteq> []" using assms(2) by auto
  have "min_d \<in> set diff" unfolding min_d_def using ne by (intro Min_in) simp_all
  then have mpos: "0 < min_d" using np_diff_pos [OF assms(1)] by (simp add: diff_def)
  have lg1: "length gaps1 = length tms"
    using ld assms(2) by (simp add: gaps1_def gaps0_def gap_width0_def)
  have g1ne: "gaps1 \<noteq> []" by (simp add: gaps1_def)
  have gaps_alt: "gaps = map2 (\<or>) gaps1 (False # butlast gaps1)"
    unfolding gaps_def using g1ne by (rule gaps_both_sides)
  have lg: "length gaps = length tms" using lg1 assms(2) by (simp add: gaps_def)
  have lw1: "length gap_width1 = length tms - 1"
    using ld by (simp add: gap_width1_def gaps0_def gap_width0_def)
  have lW: "length W = length tms" using lw1 assms(2) by (simp add: W_def)
  have gne: "gaps \<noteq> []" by (simp add: gaps_def)
  have lbg: "length (butlast gaps) = length gap_width1" using lg lw1 by simp
  have selW: "select W gaps
              = (if last gaps then map (\<lambda>w. nat \<lfloor>w\<rfloor>) (select gap_width1 (butlast gaps)) @ [1]
                 else map (\<lambda>w. nat \<lfloor>w\<rfloor>) (select gap_width1 (butlast gaps)))"
  proof -
    have "select W gaps = select (map (\<lambda>w. nat \<lfloor>w\<rfloor>) gap_width1 @ [1]) (butlast gaps @ [last gaps])"
      using gne by (simp add: W_def)
    also have "\<dots> = select (map (\<lambda>w. nat \<lfloor>w\<rfloor>) gap_width1) (butlast gaps) @ select [1] [last gaps]"
      using lbg by (intro select_append) simp
    finally show ?thesis by (simp add: select_map)
  qed
  have mg: "mark_gaps tms = Inr (gaps, select W gaps)"
    unfolding mark_gaps_def Let_def selW
    using ne mpos
    by (simp add: diff_def [symmetric] min_d_def [symmetric] gap_width0_def [symmetric]
          gaps0_def [symmetric] gap_width1_def [symmetric] gaps1_def [symmetric]
          gaps_def [symmetric])
  have w1: "gap_width1 ! i = (if gaps0 ! i then gap_width0 ! i else 1)"
    if "i < length gap_width1" for i
    using that by (simp add: gap_width1_def gaps0_def)
  have wcase: "(gaps0 ! i \<longrightarrow> 4 \<le> nat \<lfloor>gap_width1 ! i\<rfloor>) \<and> (\<not> gaps0 ! i \<longrightarrow> nat \<lfloor>gap_width1 ! i\<rfloor> = 1)"
    if "i < length gap_width1" for i
  proof -
    have "4 \<le> nat \<lfloor>gap_width0 ! i\<rfloor>" if "gaps0 ! i"
    proof -
      have "4 < gap_width0 ! i" using that \<open>i < length gap_width1\<close>
        by (simp add: gaps0_def gap_width1_def)
      then have "(4::int) \<le> \<lfloor>gap_width0 ! i\<rfloor>" by (simp add: le_floor_iff)
      then show ?thesis by linarith
    qed
    then show ?thesis using w1 [OF that] by simp
  qed
  have Wvals: "\<forall>w \<in> set W. w = 1 \<or> 4 \<le> w"
  proof
    fix w assume "w \<in> set W"
    then consider "w = 1" | i where "i < length gap_width1" "w = nat \<lfloor>gap_width1 ! i\<rfloor>"
      by (auto simp: W_def in_set_conv_nth)
    then show "w = 1 \<or> 4 \<le> w"
    proof cases
      case 1
      then show ?thesis by simp
    next
      case 2
      then show ?thesis using wcase [of i] by (cases "gaps0 ! i") auto
    qed
  qed
  have lg0: "length gaps0 = length gap_width1" by (simp add: gap_width1_def gaps0_def)
  have starts: "map (\<lambda>w. w \<noteq> 1) W = gaps1"
  proof (rule nth_equalityI)
    show "length (map (\<lambda>w. w \<noteq> 1) W) = length gaps1" using lW lg1 by simp
  next
    fix i assume "i < length (map (\<lambda>w. w \<noteq> 1) W)"
    then have i: "i < length W" by simp
    show "map (\<lambda>w. w \<noteq> 1) W ! i = gaps1 ! i"
    proof (cases "i < length gap_width1")
      case True
      then have "W ! i = nat \<lfloor>gap_width1 ! i\<rfloor>" by (simp add: W_def nth_append)
      moreover have "gaps1 ! i = gaps0 ! i" using True lg0 by (simp add: gaps1_def nth_append)
      ultimately show ?thesis using i wcase [OF True] by (cases "gaps0 ! i") auto
    next
      case False
      then have ie: "i = length gap_width1" using i by (simp add: W_def)
      have "W ! i = 1" unfolding ie W_def
        by (metis length_map nth_append_length)
      moreover have "gaps1 ! i = False" unfolding ie gaps1_def lg0 [symmetric]
        by (rule nth_append_length)
      ultimately show ?thesis using i by simp
    qed
  qed
  have chain: "\<forall>k < length (select (map (\<lambda>w. w \<noteq> 1) W) gaps).
                 \<not> select (map (\<lambda>w. w \<noteq> 1) W) gaps ! k \<longrightarrow>
                 0 < k \<and> select (map (\<lambda>w. w \<noteq> 1) W) gaps ! (k - 1)"
    unfolding starts gaps_alt using gap_chain [of gaps1 False] by (auto split: if_splits)
  show ?thesis using mg lg lW Wvals chain by blast
qed




subsection \<open>More on selections\<close>

lemma select_zip:
  "length xs = length ys \<Longrightarrow> select (zip xs ys) m = zip (select xs m) (select ys m)"
proof (induction xs ys arbitrary: m rule: list_induct2)
  case Nil
  then show ?case by simp
next
  case (Cons x xs y ys)
  then show ?case by (cases m) simp_all
qed

lemma select_select:
  "length xs = length g \<Longrightarrow> length s = length g \<Longrightarrow>
   select (select xs g) (select s g) = select xs (map2 (\<and>) g s)"
proof (induction xs g arbitrary: s rule: list_induct2)
  case Nil
  then show ?case by simp
next
  case (Cons x xs b g)
  then obtain c s' where "s = c # s'" by (cases s) simp_all
  with Cons show ?case by simp
qed

lemma nth_select_mem:
  "length xs = length m \<Longrightarrow> i < length m \<Longrightarrow> m ! i \<Longrightarrow> xs ! i \<in> set (select xs m)"
proof (induction xs m arbitrary: i rule: list_induct2)
  case Nil
  then show ?case by simp
next
  case (Cons x xs b m)
  then show ?case by (cases i) auto
qed

lemma select_mem_nth:
  "length xs = length m \<Longrightarrow> x \<in> set (select xs m) \<Longrightarrow> \<exists>i < length m. m ! i \<and> x = xs ! i"
proof (induction xs m rule: list_induct2)
  case Nil
  then show ?case by simp
next
  case (Cons y xs b m)
  show ?case
  proof (cases "b \<and> x = y")
    case True
    then show ?thesis by (intro exI [of _ 0]) simp
  next
    case False
    with Cons.prems have "x \<in> set (select xs m)" by (auto split: if_splits)
    from Cons.IH [OF this] obtain i where "i < length m" "m ! i" "x = xs ! i" by blast
    then show ?thesis by (intro exI [of _ "Suc i"]) simp
  qed
qed

subsection \<open>Setting positions, extending the ends\<close>

lemma fold_set_true:
  assumes "\<forall>j \<in> set idx. 0 \<le> j \<and> j < int (length xs)"
  shows "length (fold (\<lambda>j ys. py_update ys j True) idx xs) = length xs
       \<and> (\<forall>q < length xs. fold (\<lambda>j ys. py_update ys j True) idx xs ! q
                               = (xs ! q \<or> int q \<in> set idx))"
  using assms
proof (induction idx arbitrary: xs)
  case Nil
  then show ?case by simp
next
  case (Cons j idx)
  let ?xs' = "py_update xs j True"
  from Cons.prems have j: "0 \<le> j" "j < int (length xs)" by simp_all
  have up: "?xs' = xs[nat j := True]" using j by (simp add: py_update_def)
  have len: "length ?xs' = length xs" by (simp add: up)
  have "\<forall>j \<in> set idx. 0 \<le> j \<and> j < int (length ?xs')" using Cons.prems by (simp add: len)
  from Cons.IH [OF this]
  have ih: "length (fold (\<lambda>j ys. py_update ys j True) idx ?xs') = length xs"
    "\<forall>q < length xs. fold (\<lambda>j ys. py_update ys j True) idx ?xs' ! q
                               = (?xs' ! q \<or> int q \<in> set idx)"
    by (simp_all add: len)
  have "?xs' ! q = (xs ! q \<or> int q = j)" if "q < length xs" for q
    using that j by (auto simp: up nth_list_update)
  then show ?case using ih by auto
qed

lemma set_true_at_in_range:
  assumes "\<forall>j \<in> set idx. 0 \<le> j \<and> j < int (length xs)"
  shows "\<exists>ys. set_true_at xs idx = Inr ys \<and> length ys = length xs
            \<and> (\<forall>q < length xs. ys ! q = (xs ! q \<or> int q \<in> set idx))"
proof -
  have "\<forall>j \<in> set idx. - int (length xs) \<le> j \<and> j < int (length xs)"
    using assms by auto
  then have "set_true_at xs idx = Inr (fold (\<lambda>j ys. py_update ys j True) idx xs)"
    by (simp add: set_true_at_def)
  then show ?thesis using fold_set_true [OF assms] by simp
qed

lemma np_repeat_snoc:
  "length xs = length rs \<Longrightarrow> np_repeat (xs @ [x]) (rs @ [r]) = np_repeat xs rs @ replicate r x"
  by (simp add: np_repeat_def)

lemma np_repeat_last:
  assumes "length xs = length rs" "rs \<noteq> []"
  shows "np_repeat xs (rs[length rs - 1 := rs ! (length rs - 1) + k])
           = np_repeat xs rs @ replicate k (last xs)"
proof -
  from assms obtain rs' r where rs: "rs = rs' @ [r]" by (metis rev_exhaust)
  with assms obtain xs' x where xs: "xs = xs' @ [x]" by (metis length_0_conv rev_exhaust)
  have len: "length xs' = length rs'" using assms rs xs by simp
  have "rs[length rs - 1 := rs ! (length rs - 1) + k] = rs' @ [r + k]"
    by (simp add: rs)
  then show ?thesis using len by (simp add: rs xs np_repeat_snoc replicate_add)
qed

lemma np_repeat_first:
  assumes "length xs = length rs" "rs \<noteq> []"
  shows "np_repeat xs (rs[0 := rs ! 0 + k]) = replicate k (hd xs) @ np_repeat xs rs"
proof -
  from assms obtain r rs' where rs: "rs = r # rs'" by (cases rs) simp_all
  with assms obtain x xs' where xs: "xs = x # xs'" by (cases xs) simp_all
  show ?thesis by (simp add: rs xs replicate_add add.commute)
qed

lemma add_ends_repeat:
  assumes "length xs = length rs" "rs \<noteq> []"
  shows "\<exists>rs'. add_ends rs k = Inr rs' \<and> length rs' = length rs
            \<and> np_repeat xs rs' = replicate k (hd xs) @ np_repeat xs rs @ replicate k (last xs)"
proof -
  let ?r1 = "rs[0 := rs ! 0 + k]"
  have l1: "length xs = length ?r1" "?r1 \<noteq> []" using assms by simp_all
  have "np_repeat xs (?r1[length ?r1 - 1 := ?r1 ! (length ?r1 - 1) + k])
          = np_repeat xs ?r1 @ replicate k (last xs)"
    using l1 by (rule np_repeat_last)
  also have "np_repeat xs ?r1 = replicate k (hd xs) @ np_repeat xs rs"
    using assms by (rule np_repeat_first)
  finally show ?thesis using assms(2) by (simp add: add_ends_def Let_def)
qed

lemma select_padded:
  assumes "length ys = length m"
  shows "select (replicate k a @ ys @ replicate k b) (replicate k False @ m @ replicate k False)
           = select ys m"
proof -
  have "select (replicate k a @ (ys @ replicate k b)) (replicate k False @ (m @ replicate k False))
          = select (replicate k a) (replicate k False) @ select (ys @ replicate k b) (m @ replicate k False)"
    by (intro select_append) simp
  also have "select (ys @ replicate k b) (m @ replicate k False)
          = select ys m @ select (replicate k b) (replicate k False)"
    using assms by (rule select_append)
  finally show ?thesis by simp
qed




lemma shifted_sum_nth:
  fixes ws :: "nat list"
  assumes "k < length ws"
  shows "(hd ws # map2 (+) (tl ws) (butlast ws)) ! k
           = ws ! k + (if k = 0 then 0 else ws ! (k - 1))"
proof (cases k)
  case 0
  then show ?thesis using assms by (cases ws) simp_all
next
  case (Suc k')
  have "k' < length (tl ws)" using assms Suc by simp
  then have "map2 (+) (tl ws) (butlast ws) ! k' = tl ws ! k' + butlast ws ! k'"
    by simp
  also have "tl ws ! k' = ws ! k" using assms Suc by (simp add: nth_tl)
  also have "butlast ws ! k' = ws ! k'" using assms Suc by (simp add: nth_butlast)
  finally show ?thesis using Suc by simp
qed

lemma length_shifted_sum:
  "ws \<noteq> [] \<Longrightarrow> length (hd ws # map2 (+) (tl ws) (butlast ws)) = length ws"
  by (cases ws) simp_all

lemma repeats_sequence:
  fixes widths0 :: "nat list" and n :: nat
  defines "cap \<equiv> \<lambda>w. if w < n then w else n"
  defines "widths2 \<equiv> map (\<lambda>w. (w + 1) div 2) (map (\<lambda>w. if w = 1 then 0 else w) widths0)"
  defines "max_repeats0 \<equiv> (if widths2 = [] then []
                            else hd widths2 # map2 (+) (tl widths2) (butlast widths2))"
  assumes n: "2 \<le> n"
    and vals: "\<forall>w \<in> set widths0. w = 1 \<or> 4 \<le> w"
    and chain: "\<forall>k < length widths0. widths0 ! k = 1 \<longrightarrow> 0 < k \<and> widths0 ! (k - 1) \<noteq> 1"
  shows "length max_repeats0 = length widths0"
    and "\<forall>k < length widths0.
           (widths0 ! k \<noteq> 1 \<longrightarrow> 1 \<le> cap (widths2 ! k) \<and> cap (widths2 ! k) \<le> cap (max_repeats0 ! k))
         \<and> (widths0 ! k = 1 \<longrightarrow> 1 \<le> cap (max_repeats0 ! k))"
proof -
  have l2: "length widths2 = length widths0" by (simp add: widths2_def)
  show lm: "length max_repeats0 = length widths0"
  proof (cases "widths2 = []")
    case True
    then show ?thesis using l2 by (simp add: max_repeats0_def)
  next
    case False
    then show ?thesis using l2 length_shifted_sum [OF False] by (simp only: max_repeats0_def if_False)
  qed
  have cap_mono: "cap a \<le> cap b" if "a \<le> b" for a b using that by (auto simp: cap_def)
  have cap2: "2 \<le> cap a" if "2 \<le> a" for a using that n by (auto simp: cap_def)
  have w2: "2 \<le> widths2 ! k" if "k < length widths0" "widths0 ! k \<noteq> 1" for k
  proof -
    have "4 \<le> widths0 ! k" using vals that by (metis nth_mem)
    then show ?thesis using that by (simp add: widths2_def)
  qed
  have mr: "max_repeats0 ! k = widths2 ! k + (if k = 0 then 0 else widths2 ! (k - 1))"
    if "k < length widths0" for k
  proof -
    have "widths2 \<noteq> []" using that l2 by auto
    then show ?thesis using that l2 by (simp add: max_repeats0_def shifted_sum_nth)
  qed
  show "\<forall>k < length widths0.
           (widths0 ! k \<noteq> 1 \<longrightarrow> 1 \<le> cap (widths2 ! k) \<and> cap (widths2 ! k) \<le> cap (max_repeats0 ! k))
         \<and> (widths0 ! k = 1 \<longrightarrow> 1 \<le> cap (max_repeats0 ! k))"
  proof (intro allI impI conjI)
    fix k assume k: "k < length widths0" and s: "widths0 ! k \<noteq> 1"
    show "1 \<le> cap (widths2 ! k)" using cap2 [OF w2 [OF k s]] by simp
    show "cap (widths2 ! k) \<le> cap (max_repeats0 ! k)"
      by (rule cap_mono) (simp add: mr [OF k])
  next
    fix k assume k: "k < length widths0" and s: "widths0 ! k = 1"
    with chain have k0: "0 < k" and p: "widths0 ! (k - 1) \<noteq> 1" by auto
    have "2 \<le> widths2 ! (k - 1)" using k k0 p by (intro w2) simp_all
    then have "2 \<le> max_repeats0 ! k" using k0 by (simp add: mr [OF k])
    from cap2 [OF this] show "1 \<le> cap (max_repeats0 ! k)" by simp
  qed
qed




lemma np_repeat_ones: "np_repeat xs (replicate (length xs) 1) = xs"
  by (induction xs) simp_all

lemma select_all_True: "select xs (replicate (length xs) True) = xs"
  by (induction xs) simp_all

text \<open>
  C9. For strictly increasing times (two samples or more) and every kernel width from 1 on,
  \<open>repeat_points_internals\<close> returns one repetition count per point and a mask of the length
  of the repeated array, and for every array of the length of \<open>times\<close>, repeating it by
  the counts and selecting with the mask gives the array back: the mask keeps exactly one
  copy of each point, in order.
\<close>

theorem repeat_points_roundtrip:
  fixes signal :: "'a list"
  assumes srt: "sorted_wrt (<) tms" and len2: "2 \<le> length tms" and n1: "1 \<le> n_kernel"
    and ls: "length signal = length tms"
  shows "\<exists>reps msk. repeat_points_internals tms n_kernel False = Inr (reps, msk)
           \<and> length reps = length tms
           \<and> length msk = length (np_repeat signal reps)
           \<and> select (np_repeat signal reps) msk = signal"
proof (cases "n_kernel < 2")
  case True
  have "np_repeat signal (replicate (length tms) 1) = signal"
    using np_repeat_ones [of signal] ls by simp
  moreover have "select signal (replicate (length tms) True) = signal"
    using select_all_True [of signal] ls by simp
  ultimately show ?thesis using True ls by (simp add: repeat_points_internals_def)
next
  case False
  then have n2: "2 \<le> n_kernel" by simp
  define L where "L = length tms"
  from mark_gaps_shape [OF srt len2] obtain gaps W where
    mg: "mark_gaps tms = Inr (gaps, select W gaps)"
    and lg: "length gaps = L" and lW: "length W = L"
    and Wvals: "\<forall>w \<in> set W. w = 1 \<or> 4 \<le> w"
    and chain0: "\<forall>k < length (select (map (\<lambda>w. w \<noteq> 1) W) gaps).
                 \<not> select (map (\<lambda>w. w \<noteq> 1) W) gaps ! k \<longrightarrow>
                 0 < k \<and> select (map (\<lambda>w. w \<noteq> 1) W) gaps ! (k - 1)"
    unfolding L_def by blast
  define cap where "cap = (\<lambda>w. if w < n_kernel then w else n_kernel)"
  define widths0 where "widths0 = select W gaps"
  define gap_start where "gap_start = map (\<lambda>w. w \<noteq> 1) widths0"
  define gap_p1 where "gap_p1 = put_mask gaps gaps (map Not gap_start)"
  define gap_p2 where "gap_p2 = put_mask gaps gaps gap_start"
  define widths2 where
    "widths2 = map (\<lambda>w. (w + 1) div 2) (map (\<lambda>w. if w = 1 then 0 else w) widths0)"
  define max_repeats0 where
    "max_repeats0 = (if widths2 = [] then [] else hd widths2 # map2 (+) (tl widths2) (butlast widths2))"
  define widths where "widths = map cap widths2"
  define max_repeats where "max_repeats = map cap max_repeats0"
  define R where "R = put_mask (replicate L (1::nat)) gaps max_repeats"
  define mask0 where "mask0 = np_repeat (map Not gaps) R"
  define NP where "NP = map (\<lambda>c. int c - 1) (cumsum R)"
  define idx1 where "idx1 = select NP gap_p1"
  define idx2 where
    "idx2 = map2 (\<lambda>p w. p - (int w - 1)) (select NP gap_p2) (select widths gap_start)"
  have unf: "repeat_points_internals tms n_kernel False =
      bind_res (set_true_at (replicate (length mask0) False) idx1) (\<lambda>ge1.
      bind_res (set_true_at ge1 idx2) (\<lambda>ge.
      bind_res (add_ends R (n_kernel - 1)) (\<lambda>reps.
      Inr (reps, replicate (n_kernel - 1) False @ map2 (\<or>) mask0 ge
                   @ replicate (n_kernel - 1) False))))"
    unfolding idx2_def idx1_def NP_def mask0_def R_def L_def max_repeats_def widths_def cap_def
      max_repeats0_def widths2_def gap_p2_def gap_p1_def gap_start_def widths0_def
      repeat_points_internals_def Let_def mg
    using False by (simp only: bind_res_Inr case_prod_conv if_False)
  define S where "S = map (\<lambda>w. w \<noteq> 1) W"
  define Cc where "Cc = map (\<lambda>w. cap (((if w = 1 then 0 else w) + 1) div 2)) W"
  have lS: "length S = L" and lCc: "length Cc = L" using lW by (simp_all add: S_def Cc_def)
  have lw0: "length widths0 = count_true gaps"
    unfolding widths0_def using lW lg by (intro length_select) simp
  have gs: "gap_start = select S gaps" by (simp add: gap_start_def widths0_def S_def select_map)
  have lgs: "length gap_start = length widths0" by (simp add: gap_start_def)
  have gsn: "gap_start ! k = (widths0 ! k \<noteq> 1)" if "k < length widths0" for k
    using that by (simp add: gap_start_def)
  have chain: "\<forall>k < length widths0. widths0 ! k = 1 \<longrightarrow> 0 < k \<and> widths0 ! (k - 1) \<noteq> 1"
  proof (intro allI impI)
    fix k assume k: "k < length widths0" and w: "widths0 ! k = 1"
    have "\<not> gap_start ! k" using gsn [OF k] w by simp
    moreover have "k < length gap_start" using k lgs by simp
    ultimately have "0 < k \<and> gap_start ! (k - 1)"
      using chain0 unfolding S_def [symmetric] gs [symmetric] by blast
    then show "0 < k \<and> widths0 ! (k - 1) \<noteq> 1" using gsn [of "k - 1"] k by simp
  qed
  have vals0: "\<forall>w \<in> set widths0. w = 1 \<or> 4 \<le> w"
    using Wvals set_select_subset [of W gaps] by (auto simp: widths0_def)
  have lm: "length max_repeats0 = length widths0"
    unfolding max_repeats0_def widths2_def by (rule repeats_sequence(1) [OF n2 vals0 chain])
  have l2: "length widths2 = length widths0" by (simp add: widths2_def)
  have seq: "(widths0 ! k \<noteq> 1 \<longrightarrow> 1 \<le> widths ! k \<and> widths ! k \<le> max_repeats ! k)
           \<and> (widths0 ! k = 1 \<longrightarrow> 1 \<le> max_repeats ! k)" if "k < length widths0" for k
  proof -
    have "(widths0 ! k \<noteq> 1 \<longrightarrow> 1 \<le> cap (widths2 ! k) \<and> cap (widths2 ! k) \<le> cap (max_repeats0 ! k))
         \<and> (widths0 ! k = 1 \<longrightarrow> 1 \<le> cap (max_repeats0 ! k))"
      unfolding cap_def max_repeats0_def widths2_def
      using repeats_sequence(2) [OF n2 vals0 chain] that by blast
    then show ?thesis using that lm l2 by (simp add: widths_def max_repeats_def)
  qed
  have lmr: "length max_repeats = count_true gaps" using lm lw0 by (simp add: max_repeats_def)
  have lwd: "length widths = count_true gaps" using l2 lw0 by (simp add: widths_def)
  have wsel: "widths = select Cc gaps"
    by (simp add: widths_def widths2_def widths0_def Cc_def select_map comp_def)
  from put_mask_as_select [of "replicate L (1::nat)" gaps max_repeats] lg lmr
  have lR: "length R = L" and selR: "select R gaps = max_repeats"
    and Rnon: "\<forall>i < L. \<not> gaps ! i \<longrightarrow> R ! i = 1"
    unfolding R_def by auto
  have pp: "(S ! i \<longrightarrow> 1 \<le> Cc ! i \<and> Cc ! i \<le> R ! i) \<and> (\<not> S ! i \<longrightarrow> 1 \<le> R ! i)"
    if i: "i < L" and g: "gaps ! i" for i
  proof -
    define T where "T = zip S (zip Cc R)"
    have lT: "length T = length gaps" using lS lCc lR lg by (simp add: T_def)
    have selT: "select T gaps = zip gap_start (zip widths max_repeats)"
      unfolding T_def using lS lCc lR by (simp add: select_zip gs wsel selR)
    have "T ! i \<in> set (select T gaps)" using lT i g lg by (intro nth_select_mem) simp_all
    then obtain k where k: "k < length (zip gap_start (zip widths max_repeats))"
      and Tk: "T ! i = zip gap_start (zip widths max_repeats) ! k"
      unfolding selT by (auto simp: in_set_conv_nth)
    have kk: "k < length widths0" using k lgs by simp
    have "T ! i = (S ! i, Cc ! i, R ! i)" using i lS lCc lR by (simp add: T_def)
    moreover have "zip gap_start (zip widths max_repeats) ! k
                    = (gap_start ! k, widths ! k, max_repeats ! k)"
      using k by simp
    ultimately have "S ! i = gap_start ! k" "Cc ! i = widths ! k" "R ! i = max_repeats ! k"
      using Tk by simp_all
    then show ?thesis using seq [OF kk] gsn [OF kk] by simp
  qed
  have Rpos: "1 \<le> R ! i" if "i < L" for i
    using pp [OF that] Rnon that by (cases "gaps ! i"; cases "S ! i") auto
  have mnot: "map Not gap_start = select (map Not S) gaps" by (simp add: gs select_map)
  have p1: "gap_p1 ! i = (gaps ! i \<and> \<not> S ! i)" if "i < L" for i
    unfolding gap_p1_def mnot using that lg lS
    by (subst put_mask_select) auto
  have p2: "gap_p2 ! i = (gaps ! i \<and> S ! i)" if "i < L" for i
    unfolding gap_p2_def gs using that lg lS
    by (subst put_mask_select) auto
  have lp1: "length gap_p1 = L" and lp2: "length gap_p2 = L" using lg by (simp_all add: gap_p1_def gap_p2_def)
  have p2eq: "gap_p2 = map2 (\<and>) gaps S"
    by (rule nth_equalityI) (use lp2 lg lS p2 in auto)
  have lNP: "length NP = L" using lR by (simp add: NP_def cumsum_def)
  have NPn: "NP ! i = int (block_start R i + R ! i) - 1" if "i < L" for i
    using that lR by (simp add: NP_def cumsum_def cumsum_from_nth block_start_Suc)
  define total where "total = sum_list R"
  have lm0: "length mask0 = total" unfolding mask0_def total_def
    using lg lR by (intro length_np_repeat) simp
  define F where "F = map2 (\<lambda>p w. p - (int w - 1)) NP Cc"
  have lF: "length F = L" using lNP lCc by (simp add: F_def)
  have Fn: "F ! i = NP ! i - (int (Cc ! i) - 1)" if "i < L" for i
    using that lNP lCc by (simp add: F_def)
  have idx2_alt: "idx2 = select F gap_p2"
  proof -
    have "select widths gap_start = select Cc gap_p2"
      unfolding wsel gs p2eq using lCc lg lS by (intro select_select) simp_all
    then show ?thesis unfolding idx2_def F_def using lNP lCc by (simp add: select_map2)
  qed
  have in1: "j \<in> set idx1 \<longleftrightarrow> (\<exists>i < L. gaps ! i \<and> \<not> S ! i \<and> j = NP ! i)" for j
  proof
    assume "j \<in> set idx1"
    then obtain i where "i < length gap_p1" "gap_p1 ! i" "j = NP ! i"
      unfolding idx1_def using select_mem_nth [of NP gap_p1 j] lNP lp1 by auto
    then show "\<exists>i < L. gaps ! i \<and> \<not> S ! i \<and> j = NP ! i" using p1 lp1 by auto
  next
    assume "\<exists>i < L. gaps ! i \<and> \<not> S ! i \<and> j = NP ! i"
    then obtain i where i: "i < L" "gaps ! i" "\<not> S ! i" "j = NP ! i" by blast
    then have "gap_p1 ! i" using p1 by simp
    then show "j \<in> set idx1" unfolding idx1_def using i lNP lp1
      by (simp add: nth_select_mem)
  qed
  have in2: "j \<in> set idx2 \<longleftrightarrow> (\<exists>i < L. gaps ! i \<and> S ! i \<and> j = F ! i)" for j
  proof
    assume "j \<in> set idx2"
    then obtain i where "i < length gap_p2" "gap_p2 ! i" "j = F ! i"
      unfolding idx2_alt using select_mem_nth [of F gap_p2 j] lF lp2 by auto
    then show "\<exists>i < L. gaps ! i \<and> S ! i \<and> j = F ! i" using p2 lp2 by auto
  next
    assume "\<exists>i < L. gaps ! i \<and> S ! i \<and> j = F ! i"
    then obtain i where i: "i < L" "gaps ! i" "S ! i" "j = F ! i" by blast
    then have "gap_p2 ! i" using p2 by simp
    then show "j \<in> set idx2" unfolding idx2_alt using i lF lp2
      by (simp add: nth_select_mem)
  qed
  have bend: "block_start R i + R ! i \<le> total" if "i < L" for i
    unfolding total_def using that lR by (intro block_end_le) simp
  have NPv: "NP ! i = int (block_start R i + (R ! i - 1))" if "i < L" for i
    using NPn [OF that] Rpos [OF that] by simp
  have Fv: "F ! i = int (block_start R i + (R ! i - Cc ! i))" if "i < L" "gaps ! i" "S ! i" for i
    using Fn [OF that(1)] NPn [OF that(1)] pp [OF that(1,2)] that(3) by simp
  have r1: "\<forall>j \<in> set idx1. 0 \<le> j \<and> j < int (length (replicate (length mask0) False))"
  proof
    fix j assume "j \<in> set idx1"
    then obtain i where i: "i < L" "j = NP ! i" using in1 by blast
    then show "0 \<le> j \<and> j < int (length (replicate (length mask0) False))"
      using NPv [OF i(1)] bend [OF i(1)] Rpos [OF i(1)] lm0 by simp
  qed
  from set_true_at_in_range [OF r1] obtain ge1 where
    ge1: "set_true_at (replicate (length mask0) False) idx1 = Inr ge1"
    and lge1: "length ge1 = total"
    and ge1n: "\<forall>q < total. ge1 ! q = (int q \<in> set idx1)"
    using lm0 by auto
  have r2: "\<forall>j \<in> set idx2. 0 \<le> j \<and> j < int (length ge1)"
  proof
    fix j assume "j \<in> set idx2"
    then obtain i where i: "i < L" "gaps ! i" "S ! i" "j = F ! i" using in2 by blast
    then show "0 \<le> j \<and> j < int (length ge1)"
      using Fv [OF i(1,2,3)] bend [OF i(1)] pp [OF i(1,2)] lge1 by simp
  qed
  from set_true_at_in_range [OF r2] obtain ge where
    ge: "set_true_at ge1 idx2 = Inr ge"
    and lge: "length ge = total"
    and gen: "\<forall>q < total. ge ! q = (int q \<in> set idx1 \<or> int q \<in> set idx2)"
    using lge1 ge1n by auto
  define mask1 where "mask1 = map2 (\<or>) mask0 ge"
  have lm1: "length mask1 = sum_list R" using lm0 lge by (simp add: mask1_def total_def)
  define keep where
    "keep = (\<lambda>i. if \<not> gaps ! i then 0 else if S ! i then R ! i - Cc ! i else R ! i - 1)"
  have char: "\<forall>i < length R. keep i < R ! i
           \<and> (\<forall>a < R ! i. mask1 ! (block_start R i + a) = (a = keep i))"
  proof (intro allI impI conjI)
    fix i assume "i < length R"
    then have i: "i < L" using lR by simp
    show "keep i < R ! i" using Rpos [OF i] pp [OF i] by (auto simp: keep_def)
    fix a assume a: "a < R ! i"
    let ?q = "block_start R i + a"
    have q: "?q < total" using bend [OF i] a by simp
    have m0: "mask0 ! ?q = (\<not> gaps ! i)"
      unfolding mask0_def using lg lR i a by (subst np_repeat_nth) simp_all
    have m1: "mask1 ! ?q = (\<not> gaps ! i \<or> int ?q \<in> set idx1 \<or> int ?q \<in> set idx2)"
      using q lm0 lge gen m0 by (simp add: mask1_def)
    show "mask1 ! ?q = (a = keep i)"
    proof (cases "gaps ! i")
      case False
      then have "R ! i = 1" using Rnon i by simp
      then show ?thesis using m1 False a by (simp add: keep_def)
    next
      case True
      have e1: "int ?q \<in> set idx1 \<longleftrightarrow> (\<not> S ! i \<and> a = R ! i - 1)"
      proof
        assume "int ?q \<in> set idx1"
        then obtain j where j: "j < L" "gaps ! j" "\<not> S ! j" "int ?q = NP ! j" using in1 by blast
        then have "?q = block_start R j + (R ! j - 1)" using NPv [OF j(1)] by simp
        moreover have "R ! j - 1 < R ! j" using Rpos [OF j(1)] by simp
        ultimately have "i = j \<and> a = R ! j - 1"
          using i j(1) lR a by (intro block_unique [of i R j a "R ! j - 1"]) simp_all
        then show "\<not> S ! i \<and> a = R ! i - 1" using j by simp
      next
        assume "\<not> S ! i \<and> a = R ! i - 1"
        then show "int ?q \<in> set idx1" using in1 i True NPv [OF i] by auto
      qed
      have e2: "int ?q \<in> set idx2 \<longleftrightarrow> (S ! i \<and> a = R ! i - Cc ! i)"
      proof
        assume "int ?q \<in> set idx2"
        then obtain j where j: "j < L" "gaps ! j" "S ! j" "int ?q = F ! j" using in2 by blast
        then have "?q = block_start R j + (R ! j - Cc ! j)" using Fv [OF j(1,2,3)] by simp
        moreover have "R ! j - Cc ! j < R ! j" using pp [OF j(1,2)] j(3) by simp
        ultimately have "i = j \<and> a = R ! j - Cc ! j"
          using i j(1) lR a by (intro block_unique [of i R j a "R ! j - Cc ! j"]) simp_all
        then show "S ! i \<and> a = R ! i - Cc ! i" using j by simp
      next
        assume "S ! i \<and> a = R ! i - Cc ! i"
        then show "int ?q \<in> set idx2" using in2 i True Fv [OF i True] by auto
      qed
      show ?thesis using m1 True e1 e2 by (auto simp: keep_def)
    qed
  qed
  have lsR: "length signal = length R" using ls lR by (simp add: L_def)
  have rt: "select (np_repeat signal R) mask1 = signal"
    using lsR lm1 char by (rule select_repeat_keep)
  have Rne: "R \<noteq> []" using lR len2 by (auto simp: L_def)
  from add_ends_repeat [OF lsR Rne, of "n_kernel - 1"] obtain reps where
    ae: "add_ends R (n_kernel - 1) = Inr reps" and lreps: "length reps = length R"
    and rep: "np_repeat signal reps = replicate (n_kernel - 1) (hd signal) @ np_repeat signal R
                @ replicate (n_kernel - 1) (last signal)"
    by blast
  define msk where "msk = replicate (n_kernel - 1) False @ mask1 @ replicate (n_kernel - 1) False"
  have res: "repeat_points_internals tms n_kernel False = Inr (reps, msk)"
    unfolding unf ge1 bind_res_Inr ge ae msk_def mask1_def by (rule refl)
  have lnr: "length (np_repeat signal R) = length mask1"
    using lm1 length_np_repeat [OF lsR] by simp
  have "length msk = length (np_repeat signal reps)"
    unfolding rep msk_def using lnr by simp
  moreover have "select (np_repeat signal reps) msk = signal"
    unfolding rep msk_def using select_padded [OF lnr] rt by simp
  ultimately show ?thesis using res lreps lR by (auto simp: L_def)
qed

theorem repeat_points_roundtrip_witness:
  "sorted_wrt (<) [0, 1, 2, 3, 10, 11 :: real]
   \<and> repeat_points_internals [0, 1, 2, 3, 10, 11] 3 False
        = Inr ([3, 1, 1, 3, 3, 3],
               [False, False, True, True, True, True, False, False, False, False, True, True, False, False])
   \<and> select (np_repeat ''abcdef'' [3, 1, 1, 3, 3, 3])
        [False, False, True, True, True, True, False, False, False, False, True, True, False, False]
      = ''abcdef''"
proof -
  have r: "repeat_points_internals [0, 1, 2, 3, 10, 11] 3 False
        = Inr ([3, 1, 1, 3, 3, 3],
               [False, False, True, True, True, True, False, False, False, False, True, True, False, False])"
    by code_simp
  from repeat_points_roundtrip [of "[0, 1, 2, 3, 10, 11]" 3 "''abcdef''"] r
  show ?thesis by simp
qed

section \<open>Measurements of the eclipses\<close>

lemma measure_one_full:
  assumes "row_in_range (length tms) e" "length signal = length tms"
    and "tms ! nat (r_o e) \<noteq> tms ! nat (l_o e)"
  shows "measure_one tms signal e 0 =
     Inr ((tms ! nat (l_o e) + tms ! nat (r_o e) + tms ! nat (l_i e) + tms ! nat (r_i e)) / 4,
          tms ! nat (r_o e) - tms ! nat (l_o e),
          ((signal ! nat (l_o e) - signal ! nat (l_i e)) + (signal ! nat (r_o e) - signal ! nat (r_i e))) / 2,
          (tms ! nat (r_i e) - tms ! nat (l_i e)) / (tms ! nat (r_o e) - tms ! nat (l_o e)))"
  using assms by (simp add: measure_one_def row_in_range_def py_index_in_range array_div_def)

lemma measure_one_left:
  assumes "row_in_range (length tms) e" "length signal = length tms"
  shows "measure_one tms signal e 1 =
     Inr (tms ! nat (l_i e), tms ! nat (l_i e) - tms ! nat (l_o e),
          (signal ! nat (l_o e) - signal ! nat (l_i e)) + (signal ! nat (r_o e) - signal ! nat (r_i e)), 0)"
  using assms by (simp add: measure_one_def row_in_range_def py_index_in_range array_div_def)

lemma measure_one_right:
  assumes "row_in_range (length tms) e" "length signal = length tms"
  shows "measure_one tms signal e 2 =
     Inr (tms ! nat (r_i e), tms ! nat (r_o e) - tms ! nat (r_i e),
          (signal ! nat (l_o e) - signal ! nat (l_i e)) + (signal ! nat (r_o e) - signal ! nat (r_i e)), 0)"
  using assms by (simp add: measure_one_def row_in_range_def py_index_in_range array_div_def)

lemma measure_eclipses_rows:
  assumes "measure_eclipses tms signal ecl_indices flags_lrf = Inr (ecl_mid, widths, depths, ratios)"
    and "i < length flags_lrf"
  shows "measure_one tms signal (ecl_indices ! i) (flags_lrf ! i)
           = Inr (ecl_mid ! i, widths ! i, depths ! i, ratios ! i)"
proof -
  from assms have len: "length ecl_indices = length flags_lrf"
    by (auto simp: measure_eclipses_def split: if_splits)
  from assms len obtain rows where
    rows: "map_res (\<lambda>(e, flag). measure_one tms signal e flag) (zip ecl_indices flags_lrf) = Inr rows"
    and out: "ecl_mid = map fst rows" "widths = map (\<lambda>r. fst (snd r)) rows"
       "depths = map (\<lambda>r. fst (snd (snd r))) rows" "ratios = map (\<lambda>r. snd (snd (snd r))) rows"
    by (auto simp: measure_eclipses_def bind_res_eq_Inr split: if_splits)
  from map_res_Inr [OF rows] len assms(2)
  have "length rows = length flags_lrf"
    and "measure_one tms signal (ecl_indices ! i) (flags_lrf ! i) = Inr (rows ! i)"
    by auto
  then show ?thesis using out assms(2) by simp
qed

text \<open>
  C4. The claim says that the width of a half eclipse is twice the single measured
  half-width. On a left half eclipse with outer edge at time 0 and inner edge at time 2,
  and a right half eclipse with inner edge at time 1 and outer edge at time 3,
  \<open>measure_eclipses\<close> returns the widths 2 and 2: the single measured span, not its
  double. (Midpoints are the inner edge times 2 and 1, depths use the measured side only.)
\<close>

theorem measure_eclipses_half_width:
  "measure_eclipses [0, 1, 2, 3] [1, 9/10, 8/10, 1]
      [\<lparr>l_o = 0, l_i = 2, r_i = 2, r_o = 2\<rparr>, \<lparr>l_o = 1, l_i = 1, r_i = 1, r_o = 3\<rparr>] [1, 2]
     = Inr ([2, 1], [2, 2], [2/10, 1/10], [0, 0])"
  by (simp add: measure_eclipses_def measure_one_def py_index_def array_div_def)

section \<open>The goodness of fit of a trial period\<close>


lemma searchsorted_below:
  "j < searchsorted ps x \<Longrightarrow> ps ! j < x"
  unfolding searchsorted_def
  by (metis nth_mem set_takeWhileD takeWhile_nth)

lemma searchsorted_le_length: "searchsorted ps x \<le> length ps"
  unfolding searchsorted_def by (rule length_takeWhile_le)

lemma searchsorted_at:
  "searchsorted ps x < length ps \<Longrightarrow> x \<le> ps ! searchsorted ps x"
  unfolding searchsorted_def
  using nth_length_takeWhile [of "\<lambda>q. q < x" ps] by auto

lemma searchsorted_above:
  assumes "sorted ps" "searchsorted ps x \<le> j" "j < length ps"
  shows "x \<le> ps ! j"
proof -
  have "searchsorted ps x < length ps" using assms by simp
  then have "x \<le> ps ! searchsorted ps x" by (rule searchsorted_at)
  also have "\<dots> \<le> ps ! j" using assms by (simp add: sorted_iff_nth_mono)
  finally show ?thesis .
qed

lemma nearest_dist_spec:
  assumes "sorted ps" "ps \<noteq> []"
  shows "nearest_dist ps x = spec_distance ps x"
proof -
  define n where "n = length ps"
  define i0 where "i0 = searchsorted ps x"
  define i1 where "i1 = (if i0 = n then n - 1 else i0)"
  define a where "a = ps ! i1"
  define prev where "prev = (if i1 = 0 then ps ! (n - 1) else ps ! (i1 - 1))"
  define d where "d = (if \<bar>a - x\<bar> < \<bar>x - prev\<bar> then \<bar>a - x\<bar> else \<bar>prev - x\<bar>)"
  have n: "0 < n" using assms(2) by (simp add: n_def)
  have i0n: "i0 \<le> n" unfolding i0_def n_def by (rule searchsorted_le_length)
  have i1n: "i1 < n" using n i0n by (auto simp: i1_def)
  have inn: "(if int i0 = int n then int n - 1 else int i0) = int i1"
    using n by (auto simp: i1_def)
  have pa: "py_nth ps (int i1) = a" by (simp add: py_nth_def a_def)
  have pp: "py_nth ps (int i1 - 1) = prev"
  proof (cases "i1 = 0")
    case True
    have "nat (int (length ps) - 1) = length ps - 1" by simp
    then show ?thesis using True n by (simp add: py_nth_def prev_def n_def)
  next
    case False
    then show ?thesis by (simp add: py_nth_def prev_def nat_diff_distrib)
  qed
  have nd: "nearest_dist ps x = d"
    unfolding nearest_dist_def nearest_index_def Let_def i0_def [symmetric] n_def [symmetric] inn
    by (simp add: pa pp d_def)
  have a_in: "a \<in> set ps" using i1n by (simp add: a_def n_def)
  have prev_in: "prev \<in> set ps" using i1n n by (simp add: prev_def n_def)
  have d_in: "d \<in> (\<lambda>q. \<bar>q - x\<bar>) ` set ps" using a_in prev_in by (auto simp: d_def)
  have d_a: "d \<le> \<bar>a - x\<bar>" and d_p: "d \<le> \<bar>prev - x\<bar>" by (auto simp: d_def)
  have lower: "d \<le> \<bar>q - x\<bar>" if "q \<in> set ps" for q
  proof -
    from that obtain j where j: "j < n" "q = ps ! j" by (auto simp: in_set_conv_nth n_def)
    show ?thesis
    proof (cases "j < i0")
      case True
      then have qx: "q < x" using j searchsorted_below [of j ps x] by (simp add: i0_def)
      show ?thesis
      proof (cases "i0 = n")
        case True
        then have "i1 = n - 1" by (simp add: i1_def)
        then have "q \<le> a" using assms(1) j n by (simp add: a_def sorted_iff_nth_mono n_def)
        moreover have "a < x" using True n searchsorted_below [of "n - 1" ps x]
          by (simp add: a_def \<open>i1 = n - 1\<close> i0_def)
        ultimately show ?thesis using d_a qx by linarith
      next
        case False
        then have i1: "i1 = i0" by (simp add: i1_def)
        with \<open>j < i0\<close> have pos: "i1 \<noteq> 0" by simp
        then have pv: "prev = ps ! (i1 - 1)" by (simp add: prev_def)
        have "q \<le> prev" using assms(1) j \<open>j < i0\<close> i1 i1n
          by (simp add: pv sorted_iff_nth_mono n_def)
        moreover have "prev < x" using pos i1 searchsorted_below [of "i1 - 1" ps x]
          by (simp add: pv i0_def)
        ultimately show ?thesis using d_p by linarith
      qed
    next
      case False
      then have ij: "i0 \<le> j" by simp
      with j i0n have ne: "i0 \<noteq> n" by simp
      then have i1: "i1 = i0" by (simp add: i1_def)
      have "x \<le> a" using searchsorted_at [of ps x] i1 i1n by (simp add: a_def i0_def n_def)
      moreover have "a \<le> q" using assms(1) ij j i1 by (simp add: a_def sorted_iff_nth_mono n_def)
      ultimately show ?thesis using d_a by linarith
    qed
  qed
  have "Min ((\<lambda>q. \<bar>q - x\<bar>) ` set ps) = d"
    by (rule Min_eqI) (use d_in lower in auto)
  then show ?thesis using nd by (simp add: spec_distance_def)
qed


lemma arange_positive:
  assumes "arange start stop step = Inr ps" "0 < start" "start \<le> stop"
  shows "\<forall>p \<in> set ps. 0 < p"
proof (cases "0 < step")
  case True
  have "\<And>k::nat. 0 < start + real k * step" using True assms(2)
    by (simp add: add_pos_nonneg)
  then show ?thesis using assms(1) by (auto simp: arange_def split: if_splits)
next
  case False
  then have "(stop - start) / step \<le> 0" using assms(3)
    by (simp add: divide_nonneg_nonpos)
  then have "nat \<lceil>(stop - start) / step\<rceil> = 0" by simp
  then show ?thesis using assms(1) by (auto simp: arange_def split: if_splits)
qed

lemma py_index_mem: "py_index xs i = Inr x \<Longrightarrow> x \<in> set xs"
  by (auto simp: py_index_def Let_def split: if_splits)

lemma pattern_test_grid_reference:
  assumes "pattern_test_grid ecl_mid added_snr widths ecl_0_arg p_max_arg p_step_arg timestep
             = Inr (t_0, periods)"
  shows "t_0 \<in> set ecl_mid"
proof -
  from assms obtain ecl_0 where "py_index ecl_mid ecl_0 = Inr t_0"
    unfolding pattern_test_grid_def Let_def
    by (auto simp: bind_res_eq_Inr split: prod.splits)
  then show ?thesis by (rule py_index_mem)
qed

lemma pattern_test_grid_positive:
  assumes "pattern_test_grid ecl_mid added_snr widths ecl_0_arg p_max_arg p_step_arg timestep
             = Inr (t_0, periods)"
  shows "\<forall>p \<in> set periods. 0 < p"
proof -
  from assms obtain p_max1 mn p_step where
    ar: "arange (max 0.001 (if max 0.002 p_max1 < 0.95 * mn then 0.01 * max 0.002 p_max1 else 0.95 * mn))
           (max 0.002 p_max1) p_step = Inr periods"
    unfolding pattern_test_grid_def Let_def
    by (auto simp: bind_res_eq_Inr split: prod.splits)
  show ?thesis
    by (rule arange_positive [OF ar]) (auto simp: max_def)
qed


lemma construct_range_sorted:
  assumes "construct_range t_0 p domain p_min = Inr (pattern, n_range)" "0 < p"
  shows "sorted pattern"
proof -
  from assms(1) obtain nb na where pat: "pattern = map (\<lambda>n. t_0 + p * of_int n) [nb .. na]"
    unfolding construct_range_def Let_def by (auto simp: bind_res_eq_Inr)
  have "sorted_wrt (\<lambda>x y. t_0 + p * of_int x \<le> t_0 + p * real_of_int y) [nb .. na]"
    by (rule sorted_wrt_mono_rel [OF _ sorted_upto]) (use assms(2) in auto)
  then show ?thesis unfolding pat by (simp add: sorted_map)
qed

lemma select_filter_index:
  "length xs = length m \<Longrightarrow> select xs m = map (\<lambda>j. xs ! j) (filter (\<lambda>j. m ! j) [0..<length xs])"
proof (induction xs m rule: list_induct2)
  case Nil
  then show ?case by (simp add: select_def)
next
  case (Cons x xs b m)
  have up: "[0..<length (x # xs)] = 0 # map Suc [0..<length xs]"
    by (simp add: upt_conv_Cons map_Suc_upt del: upt_Suc)
  have tl: "map (\<lambda>j. (x # xs) ! j) (filter (\<lambda>j. (b # m) ! j) (map Suc [0..<length xs]))
            = select xs m"
    using Cons.IH by (simp add: filter_map comp_def)
  have sel: "select (x # xs) (b # m) = (if b then x # select xs m else select xs m)"
    by (simp add: select_def)
  show ?case unfolding up sel using tl by (cases b) simp_all
qed

lemma div_less_width:
  assumes "0 \<le> d" "0 \<le> w"
  shows "div_less d w c \<longleftrightarrow> d < c * w"
proof (cases "w = 0")
  case True
  then show ?thesis using assms by (simp add: div_less_def)
next
  case False
  then have "0 < w" using assms by simp
  then show ?thesis by (simp add: div_less_def pos_divide_less_eq)
qed

lemma spec_distance_nonneg:
  assumes "ps \<noteq> []"
  shows "0 \<le> spec_distance ps x"
  unfolding spec_distance_def using assms by (subst Min_ge_iff) auto

lemma pattern_gof_spec:
  assumes g: "pattern_gof ecl_mid added_snr widths time_frame t_0 timestep p = Inr g"
    and p: "0 < p"
    and cr: "construct_range t_0 p time_frame 0.1 = Inr (predicted, n_range)"
    and w: "\<forall>w \<in> set widths. 0 \<le> w"
  shows "g = (if predicted = [] then 0 else spec_gof predicted ecl_mid added_snr widths timestep p)"
proof (cases "predicted = []")
  case True
  then show ?thesis using g cr by (simp add: pattern_gof_def)
next
  case False
  define d_nn where "d_nn = map (nearest_dist predicted) ecl_mid"
  define cn_w where
    "cn_w = map2 (\<lambda>d w. div_less d w 0.5 \<and> div_less d p (max 0.06 timestep)) d_nn widths"
  from g cr False have lw: "length widths = length ecl_mid"
    and ls: "length added_snr = length cn_w"
    and gv: "g = real (length (select added_snr cn_w)) / real (length predicted)
                  * sum_list (select added_snr cn_w) - sum_list (select d_nn cn_w)"
    by (auto simp: pattern_gof_def Let_def d_nn_def cn_w_def split: if_splits)
  have srt: "sorted predicted" using cr p by (rule construct_range_sorted)
  have nd: "nearest_dist predicted x = spec_distance predicted x" for x
    using srt False by (rule nearest_dist_spec)
  have lc: "length cn_w = length ecl_mid" using lw by (simp add: cn_w_def d_nn_def)
  have ld: "length d_nn = length ecl_mid" by (simp add: d_nn_def)
  have cond: "cn_w ! j = (spec_distance predicted (ecl_mid ! j) < 0.5 * widths ! j
              \<and> spec_distance predicted (ecl_mid ! j) < max 0.06 timestep * p)"
    if "j < length ecl_mid" for j
  proof -
    have d0: "0 \<le> spec_distance predicted (ecl_mid ! j)"
      using False by (rule spec_distance_nonneg)
    have w0: "0 \<le> widths ! j" using w that lw by simp
    show ?thesis using that lw d0 w0 p
      by (simp add: cn_w_def d_nn_def nd div_less_width)
  qed
  have flt: "filter (\<lambda>j. cn_w ! j) [0..<length ecl_mid]
             = spec_matched predicted ecl_mid widths timestep p"
    unfolding spec_matched_def by (rule filter_cong) (use cond in auto)
  have s1: "select added_snr cn_w
            = map (\<lambda>j. added_snr ! j) (spec_matched predicted ecl_mid widths timestep p)"
    using select_filter_index [OF ls] ls lc flt by simp
  have s2: "select d_nn cn_w
            = map (\<lambda>j. d_nn ! j) (spec_matched predicted ecl_mid widths timestep p)"
    using select_filter_index [of d_nn cn_w] ld lc flt by simp
  have s3: "map (\<lambda>j. d_nn ! j) (spec_matched predicted ecl_mid widths timestep p)
            = map (\<lambda>j. spec_distance predicted (ecl_mid ! j))
                (spec_matched predicted ecl_mid widths timestep p)"
    by (rule map_cong) (auto simp: spec_matched_def d_nn_def nd)
  show ?thesis using False gv s1 s2 s3 by (simp add: spec_gof_def Let_def)
qed





section \<open>The score and its penalty\<close>


lemma np_any_flag: "np_any (map (\<lambda>f. f = k) flags) \<longleftrightarrow> k \<in> set flags"
  by (auto simp: np_any_def)

lemma select_checked_Inr:
  "select_checked xs m = Inr ys \<longleftrightarrow> length xs = length m \<and> ys = select xs m"
  by (auto simp: select_checked_def)

lemma mean_Inr: "mean xs = Inr v \<longleftrightarrow> xs \<noteq> [] \<and> v = sum_list xs / real (length xs)"
  by (auto simp: mean_def)

lemma np_any_nth: "np_any bs \<longleftrightarrow> (\<exists>i < length bs. bs ! i)"
  by (auto simp: np_any_def in_set_conv_nth)

lemma select_nonempty:
  "length xs = length m \<Longrightarrow> np_any m \<Longrightarrow> select xs m \<noteq> []"
  using length_select [of xs m] by (auto simp: np_any_def count_true_def filter_empty_conv)

lemma eclipse_score_attr_found:
  assumes "eclipse_score_attr tms signal_s deriv_1r period ecl_indices ecl_mid added_snr widths
             depths flags_lrf flags_pst = Inr (score, a0, a1, a2, a3, a4, penalty)"
    and "1 \<in> set flags_pst \<or> 2 \<in> set flags_pst"
    and "length ecl_mid = length flags_pst"
  shows "length flags_lrf = length flags_pst
       \<and> score = a0 * a2 * sqrt (a1\<^sup>2 + a2\<^sup>2 + a3\<^sup>2 + a4\<^sup>2) / 2 * penalty
       \<and> (\<exists>wide. penalty = 1 - 0.5 * (if \<not> np_any (map2 (\<and>) (map (\<lambda>f. f = 0) flags_lrf)
                 (map2 (\<or>) (map (\<lambda>f. f = 1) flags_pst) (map (\<lambda>f. f = 2) flags_pst))) \<or> wide
               then 1 else 0)
           \<and> (if np_any (map (\<lambda>f. f = 1) flags_pst) then
                \<exists>w_p. bind_res (select_checked widths (map (\<lambda>f. f = 1) flags_pst)) mean = Inr w_p
                \<and> (if np_any (map (\<lambda>f. f = 2) flags_pst) then
                      \<exists>w_s. bind_res (select_checked widths (map (\<lambda>f. f = 2) flags_pst)) mean = Inr w_s
                         \<and> wide = (max w_p w_s > 0.8 * period)
                    else wide = (w_p > 0.8 * period))
              else \<not> wide))"
proof -
  define prim_sec where
    "prim_sec = map2 (\<or>) (map (\<lambda>f. f = 1) flags_pst) (map (\<lambda>f. f = 2) flags_pst)"
  have any: "np_any prim_sec"
  proof -
    from assms(2) obtain i where "i < length flags_pst" "flags_pst ! i = 1 \<or> flags_pst ! i = 2"
      by (auto simp: in_set_conv_nth)
    then have "i < length prim_sec \<and> prim_sec ! i" by (auto simp: prim_sec_def)
    then show ?thesis unfolding np_any_nth by blast
  qed
  have lps: "length prim_sec = length flags_pst" by (simp add: prim_sec_def)
  have len: "length ecl_mid = length prim_sec" using assms(3) lps by simp
  have ne: "length ecl_mid \<noteq> 0" using assms(2,3) by auto
  have found: "length (select ecl_mid prim_sec) \<noteq> 0"
    using select_nonempty [OF len any] by simp
  show ?thesis
    using assms(1) ne found lps
    unfolding eclipse_score_attr_def Let_def prim_sec_def [symmetric]
    by (auto simp: bind_res_eq_Inr select_checked_Inr split: if_splits)
qed


lemma spec_mean_width_code:
  assumes "bind_res (select_checked widths (map (\<lambda>f. f = k) flags_pst)) mean = Inr w"
  shows "w = spec_mean_width widths flags_pst k"
  using assms by (auto simp: bind_res_eq_Inr select_checked_Inr mean_Inr spec_mean_width_def)

lemma spec_no_full_code:
  assumes "length flags_lrf = length flags_pst"
  shows "np_any (map2 (\<and>) (map (\<lambda>f. f = 0) flags_lrf)
                 (map2 (\<or>) (map (\<lambda>f. f = 1) flags_pst) (map (\<lambda>f. f = 2) flags_pst)))
         \<longleftrightarrow> \<not> spec_no_full flags_lrf flags_pst"
  using assms by (auto simp: np_any_nth spec_no_full_def)

text \<open>
  The score that \<open>eclipse_score_attr\<close> returns is the product of the formula and the
  penalty it returns with it, and the code looks at the widths only when there is a primary.
\<close>

lemma eclipse_score_attr_penalty:
  assumes "eclipse_score_attr tms signal_s deriv_1r period ecl_indices ecl_mid added_snr widths
             depths flags_lrf flags_pst = Inr (score, attr_0, attr_1, attr_2, attr_3, attr_4, penalty)"
    and "1 \<in> set flags_pst \<or> 2 \<in> set flags_pst"
    and "length ecl_mid = length flags_pst"
  shows "score = attr_0 * attr_2 * sqrt (attr_1\<^sup>2 + attr_2\<^sup>2 + attr_3\<^sup>2 + attr_4\<^sup>2) / 2 * penalty
       \<and> penalty = (if spec_no_full flags_lrf flags_pst \<or> code_wide widths flags_pst period
                      then 1 / 2 else 1)
       \<and> eclipse_score tms signal_s deriv_1r period ecl_indices ecl_mid added_snr widths
             depths flags_lrf flags_pst = Inr score"
proof -
  from eclipse_score_attr_found [OF assms] obtain wide where
    len: "length flags_lrf = length flags_pst"
    and sc: "score = attr_0 * attr_2 * sqrt (attr_1\<^sup>2 + attr_2\<^sup>2 + attr_3\<^sup>2 + attr_4\<^sup>2) / 2 * penalty"
    and pen: "penalty = 1 - 0.5 * (if \<not> np_any (map2 (\<and>) (map (\<lambda>f. f = 0) flags_lrf)
                 (map2 (\<or>) (map (\<lambda>f. f = 1) flags_pst) (map (\<lambda>f. f = 2) flags_pst))) \<or> wide
               then 1 else 0)"
    and w: "if np_any (map (\<lambda>f. f = 1) flags_pst) then
                \<exists>w_p. bind_res (select_checked widths (map (\<lambda>f. f = 1) flags_pst)) mean = Inr w_p
                \<and> (if np_any (map (\<lambda>f. f = 2) flags_pst) then
                      \<exists>w_s. bind_res (select_checked widths (map (\<lambda>f. f = 2) flags_pst)) mean = Inr w_s
                         \<and> wide = (max w_p w_s > 0.8 * period)
                    else wide = (w_p > 0.8 * period))
              else \<not> wide"
    by blast
  have wide: "wide = code_wide widths flags_pst period"
  proof (cases "1 \<in> set flags_pst")
    case False
    then show ?thesis using w by (simp add: np_any_flag code_wide_def)
  next
    case p: True
    with w obtain w_p where
      wp: "bind_res (select_checked widths (map (\<lambda>f. f = 1) flags_pst)) mean = Inr w_p"
      and rest: "if np_any (map (\<lambda>f. f = 2) flags_pst) then
                      \<exists>w_s. bind_res (select_checked widths (map (\<lambda>f. f = 2) flags_pst)) mean = Inr w_s
                         \<and> wide = (max w_p w_s > 0.8 * period)
                    else wide = (w_p > 0.8 * period)"
      by (auto simp: np_any_flag)
    have wp': "w_p = spec_mean_width widths flags_pst 1" using wp by (rule spec_mean_width_code)
    show ?thesis
    proof (cases "2 \<in> set flags_pst")
      case False
      then show ?thesis using rest p wp' by (simp add: np_any_flag code_wide_def spec_wide_def)
    next
      case True
      with rest obtain w_s where
        ws: "bind_res (select_checked widths (map (\<lambda>f. f = 2) flags_pst)) mean = Inr w_s"
        and wd: "wide = (max w_p w_s > 0.8 * period)"
        by (auto simp: np_any_flag)
      have "w_s = spec_mean_width widths flags_pst 2" using ws by (rule spec_mean_width_code)
      then show ?thesis using wd p True wp'
        by (auto simp: code_wide_def spec_wide_def max_def)
    qed
  qed
  have "penalty = (if spec_no_full flags_lrf flags_pst \<or> code_wide widths flags_pst period
                      then 1 / 2 else 1)"
    unfolding pen spec_no_full_code [OF len] wide by simp
  moreover have "eclipse_score tms signal_s deriv_1r period ecl_indices ecl_mid added_snr widths
             depths flags_lrf flags_pst = Inr score"
    by (simp add: eclipse_score_def assms(1))
  ultimately show ?thesis using sc by simp
qed

lemma select_none: "\<not> np_any m \<Longrightarrow> select xs m = []"
  by (auto simp: select_def np_any_def filter_empty_conv dest: set_zip_rightD)

lemma normalised_slope_none:
  assumes "normalised_slope tms signal_s deriv_1r ecl_indices ecl_mask prim m_full = Inr s"
    and "\<not> np_any prim"
  shows "s = 0"
proof -
  have sel: "select ecl_indices prim = []" using assms(2) by (rule select_none)
  from assms(1) sel show ?thesis
    unfolding normalised_slope_def Let_def
    by (auto simp: bind_res_eq_Inr select_checked_Inr mean_Inr scalar_div_def split: if_splits)
qed

lemma eclipse_score_attr_slope:
  assumes "eclipse_score_attr tms signal_s deriv_1r period ecl_indices ecl_mid added_snr widths
             depths flags_lrf flags_pst = Inr (score, a0, a1, a2, a3, a4, penalty)"
    and "1 \<in> set flags_pst \<or> 2 \<in> set flags_pst"
    and "length ecl_mid = length flags_pst"
  shows "\<exists>ecl_mask slope. normalised_slope tms signal_s deriv_1r ecl_indices ecl_mask
            (map (\<lambda>f. f = 1) flags_pst) (map (\<lambda>f. f = 0) flags_lrf) = Inr slope
          \<and> a2 = arctan (slope / 2.5) * 2 / pi"
proof -
  define prim_sec where
    "prim_sec = map2 (\<or>) (map (\<lambda>f. f = 1) flags_pst) (map (\<lambda>f. f = 2) flags_pst)"
  have any: "np_any prim_sec"
  proof -
    from assms(2) obtain i where "i < length flags_pst" "flags_pst ! i = 1 \<or> flags_pst ! i = 2"
      by (auto simp: in_set_conv_nth)
    then have "i < length prim_sec \<and> prim_sec ! i" by (auto simp: prim_sec_def)
    then show ?thesis unfolding np_any_nth by blast
  qed
  have lps: "length prim_sec = length flags_pst" by (simp add: prim_sec_def)
  have len: "length ecl_mid = length prim_sec" using assms(3) lps by simp
  have ne: "length ecl_mid \<noteq> 0" using assms(2,3) by auto
  have found: "length (select ecl_mid prim_sec) \<noteq> 0"
    using select_nonempty [OF len any] by simp
  show ?thesis
    using assms(1) ne found lps
    unfolding eclipse_score_attr_def Let_def prim_sec_def [symmetric]
    by (auto simp: bind_res_eq_Inr select_checked_Inr split: if_splits)
qed

text \<open>
  C6. Whenever at least one eclipse is classified primary or secondary, the score is
  \<open>attr_0 * attr_2 * sqrt(attr_1^2 + attr_2^2 + attr_3^2 + attr_4^2) / 2\<close> times a penalty
  factor; the factor is 0.5 when no full eclipse is among the primaries and secondaries or
  when the mean primary width or the mean secondary width is above 0.8 times the period,
  and 1 otherwise. (Without a primary the code does not look at the widths, but then
  \<open>attr_2\<close> and the score are 0.) \<open>eclipse_score\<close> returns the same score.
\<close>

theorem eclipse_score_formula:
  assumes "eclipse_score_attr tms signal_s deriv_1r period ecl_indices ecl_mid added_snr widths
             depths flags_lrf flags_pst = Inr (score, attr_0, attr_1, attr_2, attr_3, attr_4, penalty)"
    and "1 \<in> set flags_pst \<or> 2 \<in> set flags_pst"
    and "length ecl_mid = length flags_pst"
  shows "score = attr_0 * attr_2 * sqrt (attr_1\<^sup>2 + attr_2\<^sup>2 + attr_3\<^sup>2 + attr_4\<^sup>2) / 2
                   * (if spec_no_full flags_lrf flags_pst \<or> spec_wide widths flags_pst period
                      then 1 / 2 else 1)
       \<and> eclipse_score tms signal_s deriv_1r period ecl_indices ecl_mid added_snr widths
             depths flags_lrf flags_pst = Inr score"
proof -
  from eclipse_score_attr_penalty [OF assms] have
    sc: "score = attr_0 * attr_2 * sqrt (attr_1\<^sup>2 + attr_2\<^sup>2 + attr_3\<^sup>2 + attr_4\<^sup>2) / 2 * penalty"
    and pen: "penalty = (if spec_no_full flags_lrf flags_pst \<or> code_wide widths flags_pst period
                      then 1 / 2 else 1)"
    and es: "eclipse_score tms signal_s deriv_1r period ecl_indices ecl_mid added_snr widths
             depths flags_lrf flags_pst = Inr score"
    by simp_all
  show ?thesis
  proof (cases "1 \<in> set flags_pst")
    case True
    hence "code_wide widths flags_pst period = spec_wide widths flags_pst period"
      by (simp add: code_wide_def)
    with sc pen es show ?thesis by simp
  next
    case False
    from eclipse_score_attr_slope [OF assms] obtain ecl_mask slope where
      ns: "normalised_slope tms signal_s deriv_1r ecl_indices ecl_mask
            (map (\<lambda>f. f = 1) flags_pst) (map (\<lambda>f. f = 0) flags_lrf) = Inr slope"
      and a2: "attr_2 = arctan (slope / 2.5) * 2 / pi" by blast
    have "slope = 0" using ns False by (intro normalised_slope_none [OF ns]) (simp add: np_any_flag)
    hence "attr_2 = 0" using a2 by simp
    with sc es show ?thesis by simp
  qed
qed

lemma score_example_ratio:
  "found_ratio [0, 1, 2, 3, 4] [2] [2] 1 (Suc 0) = Inr (5/8)"
  by code_simp

lemma score_example_slope:
  "normalised_slope [0, 1, 2, 3, 4] [1, 1, 1/2, 1, 1] [1/10, - (1/2), 1/2, 0, 1/10]
     [\<lparr>l_o = 1, l_i = 2, r_i = 2, r_o = 3\<rparr>] [True, False, False, False, True] [False] [True] = Inr 0"
  by code_simp

lemma score_example_symmetry:
  "normalised_symmetry [0, 1, 2, 3, 4] [1, 1, 1/2, 1, 1] [\<lparr>l_o = 1, l_i = 2, r_i = 2, r_o = 3\<rparr>] = Inr 1"
  by code_simp

lemma score_example_equality:
  "normalised_equality [50] [1/2] [2] [2] = Inr (1/3)"
  by code_simp

lemma score_example_mask:
  "mask_eclipses [0, 1, 2, 3, 4 :: real] [(1, 3)] = [True, False, False, False, True]"
  by code_simp

text \<open>
  One full eclipse of width 2, classified secondary, with period 1: without a primary
  the slope measure \<open>attr_2\<close> and with it the score are 0.
\<close>

lemma score_example_secondary:
  "eclipse_score_attr [0, 1, 2, 3, 4] [1, 1, 1/2, 1, 1] [1/10, - (1/2), 1/2, 0, 1/10] 1
      [\<lparr>l_o = 1, l_i = 2, r_i = 2, r_o = 3\<rparr>] [2] [50] [2] [1/2] [0] [2]
     = Inr (0, arctan (50 / 40) * 2 / pi, 5/8, 0, 1, 1/3, 1)
   \<and> spec_wide [2] [2] 1 \<and> \<not> spec_no_full [0] [2]"
  by (simp add: eclipse_score_attr_def select_checked_def np_any_def score_example_ratio
       score_example_slope score_example_symmetry score_example_equality score_example_mask
       spec_wide_def spec_mean_width_def spec_no_full_def mean_def Let_def)

lemma score_example_ratio_prim:
  "found_ratio [0, 1, 2, 3, 4] [2] [1] 1 (Suc 0) = Inr (2/3)"
  by code_simp

lemma score_example_slope_prim:
  "normalised_slope [0, 1, 2, 3, 4] [1, 1, 1/2, 1, 1] [1/10, - (1/2), 1/2, 0, 1/10]
     [\<lparr>l_o = 1, l_i = 2, r_i = 2, r_o = 3\<rparr>] [True, False, False, False, True] [True] [True] = Inr 5"
  by code_simp

lemma score_example_equality_prim:
  "normalised_equality [50] [1/2] [2] [1] = Inr (1/3)"
  by code_simp

theorem eclipse_score_formula_witness:
  "\<exists>score attr_0 attr_1 attr_2 attr_3 attr_4.
     eclipse_score_attr [0, 1, 2, 3, 4] [1, 1, 1/2, 1, 1] [1/10, - (1/2), 1/2, 0, 1/10] 1
        [\<lparr>l_o = 1, l_i = 2, r_i = 2, r_o = 3\<rparr>] [2] [50] [2] [1/2] [0] [1]
       = Inr (score, attr_0, attr_1, attr_2, attr_3, attr_4, 1 / 2)
     \<and> score = attr_0 * attr_2 * sqrt (attr_1\<^sup>2 + attr_2\<^sup>2 + attr_3\<^sup>2 + attr_4\<^sup>2) / 2 * (1 / 2)
     \<and> eclipse_score [0, 1, 2, 3, 4] [1, 1, 1/2, 1, 1] [1/10, - (1/2), 1/2, 0, 1/10] 1
        [\<lparr>l_o = 1, l_i = 2, r_i = 2, r_o = 3\<rparr>] [2] [50] [2] [1/2] [0] [1] = Inr score"
proof -
  have "\<exists>score attr_0 attr_2 attr_3.
     eclipse_score_attr [0, 1, 2, 3, 4] [1, 1, 1/2, 1, 1] [1/10, - (1/2), 1/2, 0, 1/10] 1
        [\<lparr>l_o = 1, l_i = 2, r_i = 2, r_o = 3\<rparr>] [2] [50] [2] [1/2] [0] [1]
       = Inr (score, attr_0, 2 / 3, attr_2, attr_3, 1 / 3, 1 / 2)"
    by (simp add: eclipse_score_attr_def select_checked_def np_any_def score_example_ratio_prim
       score_example_slope_prim score_example_symmetry score_example_equality_prim
       score_example_mask mean_def Let_def)
  then obtain score attr_0 attr_1 attr_2 attr_3 attr_4 where
    a: "eclipse_score_attr [0, 1, 2, 3, 4] [1, 1, 1/2, 1, 1] [1/10, - (1/2), 1/2, 0, 1/10] 1
        [\<lparr>l_o = 1, l_i = 2, r_i = 2, r_o = 3\<rparr>] [2] [50] [2] [1/2] [0] [1]
       = Inr (score, attr_0, attr_1, attr_2, attr_3, attr_4, 1 / 2)"
    by blast
  have pen: "(if spec_no_full [0] [1] \<or> spec_wide [2] [1] 1 then 1 / 2 else 1) = (1 / 2 :: real)"
    by (simp add: spec_wide_def spec_mean_width_def select_def)
  from eclipse_score_formula [OF a] a pen show ?thesis by auto
qed

section \<open>The checks after the matching of ingress and egress\<close>


lemma select_map_res:
  assumes "map_res f xs = Inr ys"
  shows "select xs (map P ys) = filter (\<lambda>x. \<exists>y. f x = Inr y \<and> P y) xs"
  using assms
proof (induction xs arbitrary: ys)
  case Nil
  then show ?case by simp
next
  case (Cons x xs)
  from Cons.prems obtain y ys' where y: "f x = Inr y" and r: "map_res f xs = Inr ys'"
    and ys: "ys = y # ys'"
    by (auto simp: bind_res_eq_Inr)
  show ?case using Cons.IH [OF r] y ys by simp
qed

lemma map_res_each:
  assumes "map_res f xs = Inr ys" "x \<in> set xs"
  shows "\<exists>y. f x = Inr y"
  using map_res_Inr [OF assms(1)] assms(2) by (metis in_set_conv_nth)

lemma post_match_stats_ratios:
  assumes "post_match_stats tms signal_s added_snr peaks_edge peaks_bot ecl = Inr s"
  shows "\<exists>t1 t2 t_step.
           py_index tms (peaks_edge ! fst ecl) = Inr t1
         \<and> py_index tms (peaks_edge ! snd ecl) = Inr t2
         \<and> median (np_diff tms) = Inr t_step
         \<and> gap_ratio s = real_of_int (peaks_edge ! snd ecl - peaks_edge ! fst ecl) / ((t2 - t1) / t_step)
         \<and> snr_diff s = max (added_snr ! fst ecl) (added_snr ! snd ecl)
                          / min (added_snr ! fst ecl) (added_snr ! snd ecl)"
proof -
  from assms obtain rt where
    rt: "post_match_ratios tms added_snr peaks_edge ecl = Inr rt"
    and s: "gap_ratio s = fst rt" "snr_diff s = snd rt"
    by (auto simp: post_match_stats_def bind_res_eq_Inr)
  from rt obtain t2 t1 t_step w where
    t: "py_index tms (peaks_edge ! snd ecl) = Inr t2" "py_index tms (peaks_edge ! fst ecl) = Inr t1"
       "median (np_diff tms) = Inr t_step"
    and w: "scalar_div (t2 - t1) t_step = Inr w"
    and r: "scalar_div (real_of_int (peaks_edge ! snd ecl - peaks_edge ! fst ecl)) w = Inr (fst rt)"
    and sd: "scalar_div (max (added_snr ! fst ecl) (added_snr ! snd ecl))
                     (min (added_snr ! fst ecl) (added_snr ! snd ecl)) = Inr (snd rt)"
    unfolding post_match_ratios_def bind_res_eq_Inr by auto
  from w have "w = (t2 - t1) / t_step" by (auto simp: scalar_div_def split: if_splits)
  moreover from r have "fst rt = real_of_int (peaks_edge ! snd ecl - peaks_edge ! fst ecl) / w"
    by (auto simp: scalar_div_def split: if_splits)
  moreover from sd have "snd rt = max (added_snr ! fst ecl) (added_snr ! snd ecl)
                     / min (added_snr ! fst ecl) (added_snr ! snd ecl)"
    by (auto simp: scalar_div_def split: if_splits)
  ultimately show ?thesis using t s by auto
qed


lemma match_example_candidates:
  "match_candidates [0, 1, 2, 3, 4, 5, 6, 7, 8, 9] [1, 1, 1, 9/10, 1/2, 1/2, 1/2, 1, 1, 1]
     [20, 22] [2, 7] [4, 5] [False, True] [True, False] = Inr [(0, 1)]"
  by code_simp

lemma match_example_stats:
  "post_match_stats [0, 1, 2, 3, 4, 5, 6, 7, 8, 9] [1, 1, 1, 9/10, 1/2, 1/2, 1/2, 1, 1, 1]
     [20, 22] [2, 7] [4, 5] (0, Suc 0)
   = Inr \<lparr>avg_inside = 1/2, avg_outside = 1, std_inside = 0, std_outside = 0,
          gap_ratio = 1, snr_diff = 11/10\<rparr>"
  by (simp add: post_match_stats_def post_match_levels_def post_match_ratios_def Let_def
        py_slice_def slice_bound_def mean_def np_std_def
        py_index_def median_def np_diff_def scalar_div_def)


section \<open>The period estimate for one or two eclipses\<close>

text \<open>
  The last step of \<open>estimate_period\<close> either keeps the period it was given, with at least
  one eclipse flagged 1, or returns the sentinels with no eclipse flagged 1. Without more
  than two eclipses in the pattern the period is not doubled.
\<close>

lemma np_any_map2_conj: "np_any (map2 (\<and>) a b) \<Longrightarrow> np_any b"
  by (auto simp: np_any_def dest!: set_zip_rightD)

lemma group_eclipses_period:
  assumes "group_eclipses d n_full period incl domain timestep = Inr (p', pg, g1, g2)"
    and "length incl \<le> 2"
  shows "p' = period"
  using assms unfolding group_eclipses_def
  by (auto simp: bind_res_eq_Inr Let_def split: if_splits)

lemma final_flags_period:
  assumes "final_flags d fl period = Inr (t, p, f)"
  shows "(p = period \<and> 1 \<in> set f) \<or> (p = - 1 \<and> t = - 1 \<and> 1 \<notin> set f)"
proof -
  from assms obtain snr_p where sp: "select_checked (snr d) (map (\<lambda>f. f = 1) fl) = Inr snr_p"
    by (auto simp: final_flags_def bind_res_eq_Inr)
  define revoke where "revoke = (length snr_p = 2 \<and> np_any (map2 (\<lambda>a b. a < b / 2) snr_p (rev snr_p)))"
  define flags1 where "flags1 = (if revoke then map (\<lambda>f. if f = 1 \<or> f = 2 then 3 else f) fl else fl)"
  define period1 where "period1 = (if revoke then - 1 else period)"
  have r: "revoke \<Longrightarrow> 1 \<notin> set flags1" by (auto simp: flags1_def)
  from assms sp have *: "(if length (full d) \<noteq> length flags1 then Inl ValueError
        else if np_any (map2 (\<and>) (full d) (map (\<lambda>f. f = 1) flags1))
             then bind_res (select_checked (mid d) (map2 (\<and>) (full d) (map (\<lambda>f. f = 1) flags1))) (\<lambda>m. Inr (hd m, period1, flags1))
             else if np_any (map (\<lambda>f. f = 1) flags1)
             then bind_res (select_checked (mid d) (map (\<lambda>f. f = 1) flags1)) (\<lambda>m. Inr (hd m, period1, flags1))
             else Inr (- 1, - 1, flags1)) = Inr (t, p, f)"
    unfolding final_flags_def bind_res_Inr Let_def revoke_def flags1_def period1_def by simp
  show ?thesis
  proof (cases "np_any (map (\<lambda>f. f = 1) flags1)")
    case True
    hence in1: "1 \<in> set flags1" by (simp add: np_any_flag)
    with r have nr: "\<not> revoke" by blast
    from * True have "p = period1 \<and> f = flags1"
      by (auto simp: bind_res_eq_Inr split: if_splits)
    with in1 nr show ?thesis by (simp add: period1_def)
  next
    case False
    hence "\<not> np_any (map2 (\<and>) (full d) (map (\<lambda>f. f = 1) flags1))"
      using np_any_map2_conj by blast
    with * False have "t = - 1 \<and> p = - 1 \<and> f = flags1" by (auto split: if_splits)
    with False show ?thesis by (simp add: np_any_flag)
  qed
qed

lemma take_nat_in_range:
  "\<forall>i \<in> set idx. i < length xs \<Longrightarrow> take_nat xs idx = Inr (map (\<lambda>i. xs ! i) idx)"
  unfolding take_nat_def take_at_def
  by (induction idx) (simp_all add: py_index_def)

lemma take_nat_upt: "take_nat xs [0..<length xs] = Inr xs"
  using take_nat_in_range [of "[0..<length xs]" xs] by (simp add: map_nth)

lemma argsort_replicate: "argsort (replicate n m) = [0..<n]"
proof -
  have "map (\<lambda>i. replicate n m ! i) [0..<n] = replicate n m"
    by (rule nth_equalityI) simp_all
  hence "sorted (map (\<lambda>i. replicate n m ! i) [0..<n])" by simp
  thus ?thesis unfolding argsort_def by (simp add: sort_key_id_if_sorted)
qed

lemma median_const:
  assumes "xs \<noteq> []" "\<forall>x \<in> set xs. x = c"
  shows "median xs = Inr c"
proof -
  have pos: "0 < length xs" using assms(1) by simp
  have el: "\<And>i. i < length xs \<Longrightarrow> sort xs ! i = c"
  proof -
    fix i assume "i < length xs"
    hence "sort xs ! i \<in> set (sort xs)" by (intro nth_mem) simp
    thus "sort xs ! i = c" using assms(2) by simp
  qed
  have a: "sort xs ! (length xs div 2) = c" using pos by (intro el) simp
  have b: "sort xs ! (length xs div 2 - 1) = c" using pos by (intro el) arith
  show ?thesis using assms(1) a b by (simp add: median_def Let_def)
qed

lemma half_sum_le: "t = (u + v) / 2 \<Longrightarrow> t \<le> v \<or> t \<le> (u::real)"
  by (cases "u \<le> v") (simp_all add: field_simps)

lemma median_le_elem:
  assumes "median xs = Inr t"
  shows "\<exists>x \<in> set xs. t \<le> x"
proof -
  from assms have ne: "xs \<noteq> []" by (auto simp: median_def split: if_splits)
  define s where "s = sort xs"
  have pos: "0 < length xs" using ne by simp
  have el: "\<And>i. i < length xs \<Longrightarrow> s ! i \<in> set xs"
  proof -
    fix i assume "i < length xs"
    hence "s ! i \<in> set s" by (intro nth_mem) (simp add: s_def)
    thus "s ! i \<in> set xs" by (simp add: s_def)
  qed
  have a: "s ! (length xs div 2) \<in> set xs" using pos by (intro el) simp
  have b: "s ! (length xs div 2 - 1) \<in> set xs" using pos by (intro el) arith
  show ?thesis
  proof (cases "even (length xs)")
    case True
    with assms ne have "t = (s ! (length xs div 2 - 1) + s ! (length xs div 2)) / 2"
      by (auto simp: median_def Let_def s_def)
    hence "t \<le> s ! (length xs div 2) \<or> t \<le> s ! (length xs div 2 - 1)" by (rule half_sum_le)
    with a b show ?thesis by blast
  next
    case False
    with assms ne have "t = s ! (length xs div 2)"
      by (auto simp: median_def Let_def s_def)
    with a show ?thesis by auto
  qed
qed

lemma np_diff_const:
  assumes "\<forall>x \<in> set xs. x = c"
  shows "\<forall>y \<in> set (np_diff xs). y = 0"
proof
  fix y assume "y \<in> set (np_diff xs)"
  then obtain a b where "a \<in> set (tl xs)" "b \<in> set (butlast xs)" "y = a - b"
    unfolding np_diff_def by (auto dest: set_zip_leftD set_zip_rightD)
  moreover have "a = c" using assms calculation(1) by (cases xs) auto
  moreover have "b = c" using assms calculation(2) by (auto dest: in_set_butlastD)
  ultimately show "y = 0" by simp
qed

lemma median_diff_const:
  assumes "\<forall>x \<in> set xs. x = c" "1 < length xs"
  shows "median (np_diff xs) = Inr 0"
proof (rule median_const)
  show "np_diff xs \<noteq> []" using assms(2) by (metis length_np_diff length_0_conv zero_less_diff less_numeral_extra(3))
  show "\<forall>x \<in> set (np_diff xs). x = 0" using np_diff_const [OF assms(1)] .
qed

lemma search_limit_const:
  assumes "1 < n"
  shows "search_limit (replicate n m) high_snr = Inr 0"
proof -
  have all: "\<forall>x \<in> set (replicate n m). x = m" by simp
  have m2: "median (np_diff (replicate n m)) = Inr 0"
    using median_diff_const [OF all] assms by simp
  have sel: "\<forall>x \<in> set (select (replicate n m) high_snr). x = m"
    using set_select_subset [of "replicate n m" high_snr] by auto
  show ?thesis
  proof (cases "1 < length (select (replicate n m) high_snr)")
    case True
    from median_diff_const [OF sel True] show ?thesis
      unfolding search_limit_def using True m2 by simp
  next
    case False
    thus ?thesis unfolding search_limit_def using m2 by simp
  qed
qed

lemma reference_eclipse_returns:
  assumes len: "length m_full = length added_snr"
    and high: "\<exists>x \<in> set added_snr. max (sum_list added_snr / real (length added_snr))
                 (0.5 * Max (set added_snr)) < x"
  shows "\<exists>e h. reference_eclipse added_snr m_full = Inr (e, h)"
proof -
  from high have ne: "added_snr \<noteq> []" by auto
  define hs where "hs = map (\<lambda>s. s > max (sum_list added_snr / real (length added_snr))
                                     (0.5 * Max (set added_snr))) added_snr"
  have unf: "reference_eclipse added_snr m_full =
     (if select added_snr hs = [] then Inl IndexError
      else
        bind_res (median (select added_snr hs)) (\<lambda>target_snr.
        bind_res (select_checked added_snr m_full) (\<lambda>snr_full.
        if np_any (map (\<lambda>s. s \<ge> target_snr) snr_full)
        then Inr (hd (select (select [0..<length added_snr] m_full)
                        (map (\<lambda>s. s \<ge> target_snr) snr_full)), hs)
        else if select [0..<length added_snr] (map (\<lambda>s. s \<ge> target_snr) added_snr) = []
             then Inl IndexError
             else Inr (hd (select [0..<length added_snr] (map (\<lambda>s. s \<ge> target_snr) added_snr)),
                       hs))))"
    unfolding reference_eclipse_def hs_def mean_def np_max_def Let_def using ne by simp
  from high have "np_any hs" by (auto simp: np_any_def hs_def)
  hence sel: "select added_snr hs \<noteq> []" by (intro select_nonempty) (simp_all add: hs_def)
  then obtain target where tg: "median (select added_snr hs) = Inr target"
    by (auto simp: median_def Let_def)
  from median_le_elem [OF tg] obtain x where x: "x \<in> set (select added_snr hs)" "target \<le> x" by blast
  hence xin: "x \<in> set added_snr" using set_select_subset by fastforce
  have any: "np_any (map (\<lambda>s. s \<ge> target) added_snr)"
    using xin x(2) by (auto simp: np_any_def)
  have cand: "select [0..<length added_snr] (map (\<lambda>s. s \<ge> target) added_snr) \<noteq> []"
    using any by (intro select_nonempty) simp_all
  have sc: "select_checked added_snr m_full = Inr (select added_snr m_full)"
    using len by (simp add: select_checked_def)
  show ?thesis unfolding unf using sel tg cand sc by simp
qed

lemma estimate_period_equal_midpoints:
  assumes n: "2 < n"
    and len: "length widths = n" "length depths = n" "length added_snr = n" "length flags_lrf = n"
    and high: "\<exists>x \<in> set added_snr. max (sum_list added_snr / real (length added_snr))
                 (0.5 * Max (set added_snr)) < x"
  shows "estimate_period (replicate n m) widths depths added_snr flags_lrf timestep
           = Inr (- 1, - 1, replicate n 3)"
proof -
  define m_full where "m_full = map (\<lambda>f. f = 0) flags_lrf"
  define d0 where "d0 = \<lparr>mid = replicate n m, wid = widths, dep = depths, snr = added_snr, full = m_full\<rparr>"
  have lf: "length m_full = n" by (simp add: m_full_def len)
  have dom: "time_domain (replicate n m) = Inr (m, m)"
    using n by (simp add: time_domain_def np_min_def np_max_def)
  from reference_eclipse_returns [OF _ high, of m_full] lf len
  obtain e h where re: "reference_eclipse added_snr m_full = Inr (e, h)" by auto
  have ps: "period_search d0 (m, m) timestep = Inr (- 1, [])"
    unfolding period_search_def d0_def using re search_limit_const [of n m h] n by simp
  have tk: "take_nat (replicate n m) [0..<n] = Inr (replicate n m)"
    "take_nat widths [0..<n] = Inr widths" "take_nat depths [0..<n] = Inr depths"
    "take_nat added_snr [0..<n] = Inr added_snr" "take_nat m_full [0..<n] = Inr m_full"
    using take_nat_upt [of "replicate n m"] take_nat_upt [of widths] take_nat_upt [of depths]
      take_nat_upt [of added_snr] take_nat_upt [of m_full] len lf by simp_all
  have fe: "first_estimate d0 (m, m) timestep = Inr (- 1, [], [0..<n], d0)"
    unfolding first_estimate_def using n tk ps
    by (simp add: d0_def argsort_replicate Let_def)
  show ?thesis
    unfolding estimate_period_def Let_def m_full_def [symmetric] d0_def [symmetric] dom bind_res_Inr
      fe by (simp add: d0_def)
qed

lemma estimate_period_single:
  "estimate_period [m] widths depths added_snr flags_lrf timestep = Inr (- 1, - 1, [3])"
  by (simp add: estimate_period_def time_domain_def np_min_def np_max_def first_estimate_def)

lemma estimate_period_close:
  "\<bar>m1 - m0\<bar> < 0.01 \<Longrightarrow>
   estimate_period [m0, m1] widths depths added_snr flags_lrf timestep = Inr (- 1, - 1, [3, 3])"
  by (simp add: estimate_period_def time_domain_def np_min_def np_max_def first_estimate_def Let_def)

text \<open>Without any eclipse \<open>np.min(ecl_mid)\<close> raises before the number of eclipses is looked
  at. The only caller, \<open>find_eclipses\<close>, calls the function if \<open>len(flags_lrf) != 0\<close>.\<close>

lemma estimate_period_empty:
  "estimate_period [] widths depths added_snr flags_lrf timestep = Inl ValueError"
  by (simp add: estimate_period_def time_domain_def np_min_def)

lemma estimate_period_two:
  assumes sep: "0.01 \<le> \<bar>m1 - m0\<bar>"
    and ret: "estimate_period [m0, m1] widths depths added_snr flags_lrf timestep = Inr (t, p, fl)"
  shows "(p = \<bar>m1 - m0\<bar> \<and> 1 \<in> set fl) \<or> (p = - 1 \<and> t = - 1 \<and> 1 \<notin> set fl)"
proof -
  define d0 where "d0 = \<lparr>mid = [m0, m1], wid = widths, dep = depths, snr = added_snr,
     full = map (\<lambda>f. f = 0) flags_lrf\<rparr>"
  obtain domain where dom: "time_domain [m0, m1] = Inr domain"
    by (simp add: time_domain_def np_min_def np_max_def Let_def)
  have fe: "first_estimate d0 domain timestep = Inr (\<bar>m1 - m0\<bar>, [0, 1], [], d0)"
    using sep by (simp add: first_estimate_def d0_def Let_def)
  have ne: "\<bar>m1 - m0\<bar> \<noteq> - 1" by simp
  from ret have "bind_res (group_eclipses d0 (count_true (map (\<lambda>f. f = 0) flags_lrf)) \<bar>m1 - m0\<bar>
                   [0, 1] domain timestep)
            (\<lambda>(period', primary_g1, g1, g2).
               bind_res (assign_flags (length (mid d0)) g1 g2 primary_g1) (\<lambda>flags_pst.
               bind_res (final_flags d0 flags_pst period') (\<lambda>(t_zero, period'', flags1).
               Inr (t_zero, period'', flags1)))) = Inr (t, p, fl)"
    unfolding estimate_period_def Let_def d0_def [symmetric] dom bind_res_Inr fe
    using ne by simp
  then obtain p' pg g1 g2 flags_pst where
    ge: "group_eclipses d0 (count_true (map (\<lambda>f. f = 0) flags_lrf)) \<bar>m1 - m0\<bar> [0, 1] domain
           timestep = Inr (p', pg, g1, g2)"
    and ff: "final_flags d0 flags_pst p' = Inr (t, p, fl)"
    by (auto simp: bind_res_eq_Inr)
  from group_eclipses_period [OF ge] have "p' = \<bar>m1 - m0\<bar>" by simp
  with final_flags_period [OF ff] show ?thesis by simp
qed

text \<open>
  Two examples with two eclipses one day apart, of which the second has a quarter of the
  signal to noise of the first, or the same: the steps of the function on them.
\<close>

lemma example_domain: "time_domain [0, 1] = Inr (- (1/40), 41/40)"
  by (simp add: time_domain_def np_min_def np_max_def)

lemma example_fold: "fold_time_series [0, 1] 1 0 = Inr [0, 0]"
  by code_simp

lemma example_average: "group_average [0, 0] [1/10, 1/10] [0, Suc 0] 1 = Inr (0, 1/10)"
  by code_simp

lemma example_flags: "assign_flags (Suc (Suc 0)) [0, Suc 0] [] True = Inr [1, 1]"
  by code_simp

lemma unlike_pattern:
  "extract_pattern [0, 1] [1/10, 1/10] [4, 1] 0 1 (- (1/40), 41/40) = Inr [0, Suc 0]"
  by code_simp

lemma unlike_second:
  "second_group [- (1/2), - (1/2)] [4, 1] (Suc (Suc 0)) [0, Suc 0] 0 (1/10) (3/125) = Inr []"
  by code_simp

lemma unlike_std: "np_std [4, 1] = Inr (3/2)"
proof -
  have "sqrt (9/4) = 3/2" by (rule real_sqrt_unique) (simp_all add: power2_eq_square)
  thus ?thesis by (simp add: np_std_def mean_def power2_eq_square)
qed

lemma unlike_add:
  "add_missing_ecl [0, Suc 0] [0, 1] [0, 0] [4, 1] 0 (1/10) 1 = Inr [0, Suc 0]"
  by (simp add: add_missing_ecl_def take_nat_def take_at_def py_index_def unlike_std mean_def
      select_def Let_def)

lemma unlike_split:
  "split_groups \<lparr>mid = [0, 1], wid = [1/10, 1/10], dep = [1/5, 1/5], snr = [4, 1], full = [True, True]\<rparr>
     0 1 (- (1/40), 41/40) (1/100) False [] [] = Inr (True, [0, Suc 0], [])"
  by (simp add: split_groups_def array_div_def example_fold unlike_pattern py_fmod_def Let_def
      example_average unlike_second unlike_add width_filter_def choose_primary_def)

lemma unlike_group:
  "group_eclipses \<lparr>mid = [0, 1], wid = [1/10, 1/10], dep = [1/5, 1/5], snr = [4, 1], full = [True, True]\<rparr>
     (Suc (Suc 0)) 1 [0, Suc 0] (- (1/40), 41/40) (1/100) = Inr (1, True, [0, Suc 0], [])"
  by (simp add: group_eclipses_def take_nat_def take_at_def py_index_def unlike_split)

lemma unlike_final:
  "final_flags \<lparr>mid = [0, 1], wid = [1/10, 1/10], dep = [1/5, 1/5], snr = [4, 1], full = [True, True]\<rparr>
     [1, 1] 1 = Inr (- 1, - 1, [3, 3])"
  by code_simp

lemma unlike_result:
  "estimate_period [0, 1] [1/10, 1/10] [1/5, 1/5] [4, 1] [0, 0] (1/100) = Inr (- 1, - 1, [3, 3])"
  using example_domain example_flags unlike_group unlike_final
  by (simp add: estimate_period_def first_estimate_def count_true_def)

lemma alike_pattern:
  "extract_pattern [0, 1] [1/10, 1/10] [4, 4] 0 1 (- (1/40), 41/40) = Inr [0, Suc 0]"
  by code_simp

lemma alike_second:
  "second_group [- (1/2), - (1/2)] [4, 4] (Suc (Suc 0)) [0, Suc 0] 0 (1/10) (3/125) = Inr []"
  by code_simp

lemma alike_std: "np_std [4, 4] = Inr 0"
  by (simp add: np_std_def mean_def)

lemma alike_add:
  "add_missing_ecl [0, Suc 0] [0, 1] [0, 0] [4, 4] 0 (1/10) 1 = Inr [0, Suc 0]"
  by (simp add: add_missing_ecl_def take_nat_def take_at_def py_index_def alike_std mean_def
      select_def Let_def)

lemma alike_split:
  "split_groups \<lparr>mid = [0, 1], wid = [1/10, 1/10], dep = [1/5, 1/5], snr = [4, 4], full = [True, True]\<rparr>
     0 1 (- (1/40), 41/40) (1/100) False [] [] = Inr (True, [0, Suc 0], [])"
  by (simp add: split_groups_def array_div_def example_fold alike_pattern py_fmod_def Let_def
      example_average alike_second alike_add width_filter_def choose_primary_def)

lemma alike_group:
  "group_eclipses \<lparr>mid = [0, 1], wid = [1/10, 1/10], dep = [1/5, 1/5], snr = [4, 4], full = [True, True]\<rparr>
     (Suc (Suc 0)) 1 [0, Suc 0] (- (1/40), 41/40) (1/100) = Inr (1, True, [0, Suc 0], [])"
  by (simp add: group_eclipses_def take_nat_def take_at_def py_index_def alike_split)

lemma alike_final:
  "final_flags \<lparr>mid = [0, 1], wid = [1/10, 1/10], dep = [1/5, 1/5], snr = [4, 4], full = [True, True]\<rparr>
     [1, 1] 1 = Inr (0, 1, [1, 1])"
  by code_simp

lemma alike_result:
  "estimate_period [0, 1] [1/10, 1/10] [1/5, 1/5] [4, 4] [0, 0] (1/100) = Inr (0, 1, [1, 1])"
  using example_domain example_flags alike_group alike_final
  by (simp add: estimate_period_def first_estimate_def count_true_def)




end
